(* ===== verification/Prelude.thy ===== *)
theory Prelude
  imports Complex_Main "HOL-Library.Char_ord" "HOL-Library.List_Lexorder"
begin

text \<open>
  Shared vocabulary of the development: the C++ types and library functions the
  client uses, and the generic lemmas on characters, lists and decimal notation
  that the component theories rely on.

  \<^item> \<open>std::expected<T, E>\<close> is the sum type \<open>E + T\<close> (\<open>Inl\<close> is \<open>std::unexpected\<close>),
    \<open>std::optional<T>\<close> is \<open>T option\<close>;
  \<^item> \<open>std::string\<close>, \<open>std::string_view\<close> and byte buffers read as text are \<open>string\<close>
    (a \<open>char\<close> of HOL is one byte);
  \<^item> \<open>int64_t\<close> is \<open>int\<close> with the range checks of the source written out; additions
    that C++ leaves undefined on overflow go through \<open>add64\<close>, which is \<open>None\<close> there;
  \<^item> \<open>show_nat\<close>, \<open>show_int\<close> and \<open>show_padded\<close> are \<open>std::format\<close> with \<open>{}\<close> and \<open>{:0w}\<close>;
  \<^item> \<open>starts_with\<close> is \<open>std::string::starts_with\<close>;
  \<^item> \<open>from_chars\<close> is \<open>std::from_chars\<close> on an unsigned type of a given maximum.
\<close>

named_theorems progress \<open>facts of the form: the operation moves the read position forward\<close>
named_theorems wp \<open>weakest preconditions of computations with effects\<close>
named_theorems shrink \<open>computations that put no answers back on the tape\<close>
named_theorems wf_preserve \<open>facts of the form: the operation keeps the well-formedness predicate\<close>

type_synonym ('e, 'a) expected = "'e + 'a"

section \<open>Integers\<close>

definition INT64_MAX :: int where
  "INT64_MAX = 9223372036854775807"

definition INT64_MIN :: int where
  "INT64_MIN = - 9223372036854775808"

definition in_int64 :: "int \<Rightarrow> bool" where
  "in_int64 x \<longleftrightarrow> INT64_MIN \<le> x \<and> x \<le> INT64_MAX"

definition add64 :: "int \<Rightarrow> int \<Rightarrow> int option" where
  "add64 a b = (if in_int64 (a + b) then Some (a + b) else None)"

definition sub64 :: "int \<Rightarrow> int \<Rightarrow> int option" where
  "sub64 a b = (if in_int64 (a - b) then Some (a - b) else None)"

section \<open>Characters\<close>

definition starts_with :: "string \<Rightarrow> string \<Rightarrow> bool" where
  "starts_with s word \<longleftrightarrow> take (length word) s = word"

definition code :: "char \<Rightarrow> nat" where
  "code c = of_char c"

definition is_digit :: "char \<Rightarrow> bool" where
  "is_digit c \<longleftrightarrow> 48 \<le> code c \<and> code c \<le> 57"

definition digit_val :: "char \<Rightarrow> nat" where
  "digit_val c = code c - 48"

definition is_hex :: "char \<Rightarrow> bool" where
  "is_hex c \<longleftrightarrow> is_digit c \<or> (97 \<le> code c \<and> code c \<le> 102) \<or> (65 \<le> code c \<and> code c \<le> 70)"

definition hex_val :: "char \<Rightarrow> nat" where
  "hex_val c = (if is_digit c then code c - 48
    else if 97 \<le> code c \<and> code c \<le> 102 then code c - 97 + 10
    else code c - 65 + 10)"

abbreviation CR :: char where "CR \<equiv> CHR 0x0D"
abbreviation LF :: char where "LF \<equiv> CHR 0x0A"
abbreviation TAB :: char where "TAB \<equiv> CHR 0x09"
abbreviation DQUOTE :: char where "DQUOTE \<equiv> CHR 0x22"
abbreviation BACKSLASH :: char where "BACKSLASH \<equiv> CHR 0x5C"

section \<open>Decimal notation\<close>

definition digit_char :: "nat \<Rightarrow> char" where
  "digit_char d = char_of (48 + d)"

fun show_nat :: "nat \<Rightarrow> string" where
  "show_nat n = (if n < 10 then [digit_char n] else show_nat (n div 10) @ [digit_char (n mod 10)])"

declare show_nat.simps [simp del]

definition show_int :: "int \<Rightarrow> string" where
  "show_int i = (if i < 0 then CHR ''-'' # show_nat (nat (- i)) else show_nat (nat i))"

definition show_padded :: "nat \<Rightarrow> nat \<Rightarrow> string" where
  "show_padded w n = replicate (w - length (show_nat n)) (CHR ''0'') @ show_nat n"

definition digits_val :: "string \<Rightarrow> nat" where
  "digits_val ds = foldl (\<lambda>v c. v * 10 + digit_val c) 0 ds"

definition show_int_padded :: "nat \<Rightarrow> int \<Rightarrow> string" where
  "show_int_padded w i =
     (if i < 0 then CHR ''-'' # show_padded (w - 1) (nat (- i)) else show_padded w (nat i))"

definition hex_char :: "nat \<Rightarrow> char" where
  "hex_char d = (if d < 10 then char_of (48 + d) else char_of (87 + d))"

section \<open>Division truncates towards zero\<close>

definition cdiv :: "int \<Rightarrow> int \<Rightarrow> int" where
  "cdiv a b = sgn a * sgn b * (\<bar>a\<bar> div \<bar>b\<bar>)"

definition cmod :: "int \<Rightarrow> int \<Rightarrow> int" where
  "cmod a b = a - cdiv a b * b"

section \<open>\<open>std::from_chars\<close>\<close>

text \<open>
  The longest prefix of digits is consumed; no digits is \<open>invalid_argument\<close> and a value above
  the type's maximum \<open>result_out_of_range\<close>, both \<open>None\<close> here. Otherwise the value and the
  unread rest are returned. A sign is accepted for signed types only.
\<close>

definition UINT64_MAX :: nat where
  "UINT64_MAX = 18446744073709551615"

definition INT32_MAX :: nat where
  "INT32_MAX = 2147483647"

definition from_chars :: "nat \<Rightarrow> string \<Rightarrow> (nat \<times> string) option" where
  "from_chars mx s =
     (let ds = takeWhile is_digit s in
      if ds = [] \<or> digits_val ds > mx then None
      else Some (digits_val ds, dropWhile is_digit s))"

definition hex_digits_val :: "string \<Rightarrow> nat" where
  "hex_digits_val ds = foldl (\<lambda>v c. v * 16 + hex_val c) 0 ds"

definition from_chars_hex :: "nat \<Rightarrow> string \<Rightarrow> (nat \<times> string) option" where
  "from_chars_hex mx s =
     (let ds = takeWhile is_hex s in
      if ds = [] \<or> hex_digits_val ds > mx then None
      else Some (hex_digits_val ds, dropWhile is_hex s))"

definition from_chars_int :: "string \<Rightarrow> (int \<times> string) option" where
  "from_chars_int s =
     (if s \<noteq> [] \<and> hd s = CHR ''-''
      then map_option (\<lambda>(v, r). (- int v, r)) (from_chars (INT32_MAX + 1) (tl s))
      else map_option (\<lambda>(v, r). (int v, r)) (from_chars INT32_MAX s))"

section \<open>Lemmas on characters and digits\<close>

lemma code_lt: "code c < 256"
  by (simp add: code_def)

lemma code_inj [simp]: "code c = code d \<longleftrightarrow> c = d"
  by (simp add: code_def)

lemma code_digit_char: "d < 10 \<Longrightarrow> code (digit_char d) = 48 + d"
  by (simp add: code_def digit_char_def of_char_of)

lemma is_digit_digit_char [simp]: "d < 10 \<Longrightarrow> is_digit (digit_char d)"
  by (simp add: is_digit_def code_digit_char)

lemma digit_val_digit_char [simp]: "d < 10 \<Longrightarrow> digit_val (digit_char d) = d"
  by (simp add: digit_val_def code_digit_char)

lemma is_digit_0 [simp]: "is_digit (CHR ''0'')" and digit_val_0 [simp]: "digit_val (CHR ''0'') = 0"
  by (simp_all add: is_digit_def digit_val_def code_def)

lemma digit_val_less: "is_digit c \<Longrightarrow> digit_val c < 10"
  by (auto simp: is_digit_def digit_val_def)

lemma digit_val_zero: "is_digit c \<Longrightarrow> digit_val c = 0 \<longleftrightarrow> c = CHR ''0''"
proof -
  assume d: "is_digit c"
  have "c = CHR ''0'' \<longleftrightarrow> code c = code (CHR ''0'')"
    by (simp only: code_inj)
  then show ?thesis using d by (auto simp: is_digit_def digit_val_def code_def)
qed

lemma is_digit_not_special: "is_digit c \<Longrightarrow> c \<noteq> CHR ''.'' \<and> c \<noteq> CHR ''-''"
  by (auto simp: is_digit_def code_def)

lemma digits_val_Nil [simp]: "digits_val [] = 0"
  by (simp add: digits_val_def)

lemma digits_val_snoc [simp]: "digits_val (ds @ [c]) = digits_val ds * 10 + digit_val c"
  by (simp add: digits_val_def)

lemma digits_val_append: "digits_val (ds @ es) = digits_val ds * 10 ^ length es + digits_val es"
proof (induction es rule: rev_induct)
  case (snoc e es)
  then show ?case
    by (simp del: append_assoc add: append_assoc [symmetric] algebra_simps)
qed simp

lemma digits_val_bound: "list_all is_digit ds \<Longrightarrow> digits_val ds < 10 ^ length ds"
proof (induction ds rule: rev_induct)
  case (snoc d ds)
  then have "digits_val ds < 10 ^ length ds" and "digit_val d < 10"
    by (auto simp: digit_val_less)
  then show ?case by simp
qed simp

lemma digits_val_eq_0: "list_all is_digit ds \<Longrightarrow> digits_val ds = 0 \<longleftrightarrow> (\<forall>c \<in> set ds. c = CHR ''0'')"
proof (induction ds rule: rev_induct)
  case (snoc d ds)
  then show ?case using digit_val_zero [of d] by auto
qed simp

lemma show_nat_digits: "list_all is_digit (show_nat n)"
proof (induction n rule: show_nat.induct)
  case (1 n)
  then show ?case by (cases "n < 10") (auto simp: show_nat.simps [of n])
qed

lemma show_nat_not_Nil [simp]: "show_nat n \<noteq> []"
  by (subst show_nat.simps) simp

lemma digits_val_show_nat [simp]: "digits_val (show_nat n) = n"
proof (induction n rule: show_nat.induct)
  case (1 n)
  then show ?case
    by (cases "n < 10") (auto simp: show_nat.simps [of n] digits_val_def)
qed

lemma show_padded_digits: "list_all is_digit (show_padded w n)"
  using show_nat_digits [of n]
  by (auto simp: show_padded_def list_all_iff)

lemma digits_val_replicate_zero [simp]: "digits_val (replicate k (CHR ''0'')) = 0"
  by (subst digits_val_eq_0) (auto simp: list_all_iff)

lemma digits_val_show_padded [simp]: "digits_val (show_padded w n) = n"
  by (simp add: show_padded_def digits_val_append)

lemma length_show_nat_le: "n < 10 ^ w \<Longrightarrow> 0 < w \<Longrightarrow> length (show_nat n) \<le> w"
proof (induction n arbitrary: w rule: show_nat.induct)
  case (1 n)
  show ?case
  proof (cases "n < 10")
    case True
    with "1.prems" show ?thesis by (simp add: show_nat.simps [of n])
  next
    case False
    have "w \<noteq> 1" using False "1.prems" by auto
    with "1.prems" obtain v where w: "w = Suc v" "0 < v"
      by (cases w) auto
    with "1.prems" have "n div 10 < 10 ^ v" by (simp add: less_mult_imp_div_less mult.commute)
    with "1.IH" False w have "length (show_nat (n div 10)) \<le> v" by simp
    with False w show ?thesis by (simp add: show_nat.simps [of n])
  qed
qed

lemma length_show_padded: "n < 10 ^ w \<Longrightarrow> 0 < w \<Longrightarrow> length (show_padded w n) = w"
  using length_show_nat_le by (simp add: show_padded_def)

lemma cdiv_nonneg: "0 \<le> a \<Longrightarrow> 0 < b \<Longrightarrow> cdiv a b = a div b"
  by (cases "a = 0") (simp_all add: cdiv_def)

lemma cmod_nonneg: "0 \<le> a \<Longrightarrow> 0 < b \<Longrightarrow> cmod a b = a mod b"
  by (simp add: cmod_def cdiv_nonneg minus_div_mult_eq_mod)

lemma takeWhile_digits_full [simp]: "list_all is_digit ds \<Longrightarrow> takeWhile is_digit ds = ds"
  by (simp add: takeWhile_eq_all_conv list_all_iff)

lemma dropWhile_digits_full [simp]: "list_all is_digit ds \<Longrightarrow> dropWhile is_digit ds = []"
  by (simp add: dropWhile_eq_Nil_conv list_all_iff)

lemma from_chars_show_nat: "n \<le> mx \<Longrightarrow> from_chars mx (show_nat n) = Some (n, [])"
  using show_nat_digits [of n] by (simp add: from_chars_def Let_def)

lemma hex_char_val: "d < 16 \<Longrightarrow> is_hex (hex_char d) \<and> hex_val (hex_char d) = d"
  by (auto simp: hex_char_def is_hex_def hex_val_def is_digit_def code_def of_char_of)

section \<open>Lemmas on reading a buffer by index\<close>

lemma drop_eq_Cons_conv:
  "drop p s = c # r \<longleftrightarrow> p < length s \<and> s ! p = c \<and> drop (Suc p) s = r"
proof (cases "p < length s")
  case True
  then show ?thesis using Cons_nth_drop_Suc [OF True] by (metis list.inject)
qed simp

lemma drop_append_advance: "drop p s = xs @ r \<Longrightarrow> drop (p + length xs) s = r"
  by (metis add.commute append_eq_conv_conj drop_drop)

lemma drop_eq_append_le: "drop p s = xs @ r \<Longrightarrow> xs \<noteq> [] \<Longrightarrow> p + length xs \<le> length s"
proof -
  assume d: "drop p s = xs @ r" and "xs \<noteq> []"
  from d have "length s - p = length xs + length r" by (metis length_append length_drop)
  with \<open>xs \<noteq> []\<close> show ?thesis by (cases xs) auto
qed

end
