(* ===== verification/Byte_Stream.thy ===== *)
theory Byte_Stream
  imports Prelude "HOL-Library.Word"
begin

text \<open>
  Reading framed messages from a byte stream. Both network clients keep a receive buffer, try an
  incremental parser on it, and append what the socket delivers until the parser accepts or
  rejects. \<open>read_until\<close> is that loop; the locale \<open>stream_parser\<close> states what it relies on in the
  parser, and its lemmas say that the result does not depend on how the bytes were cut into
  deliveries. \<open>Frames\<close> and \<open>Http_Response\<close> interpret it.
\<close>

type_synonym byte = "8 word"
type_synonym bytes = "byte list"

definition text_of :: "bytes \<Rightarrow> string" where
  "text_of bs = map (\<lambda>b. char_of (unat b)) bs"

definition bytes_of :: "string \<Rightarrow> bytes" where
  "bytes_of s = map (\<lambda>c. of_nat (code c)) s"

lemma text_of_bytes_of [simp]: "text_of (bytes_of s) = s"
proof -
  have "char_of (unat (of_nat (code c) :: byte)) = c" for c
    using code_lt [of c] by (simp add: unat_of_nat code_def)
  then show ?thesis by (simp add: text_of_def bytes_of_def comp_def)
qed

lemma bytes_of_text_of [simp]: "bytes_of (text_of bs) = bs"
proof -
  have "of_nat (code (char_of (unat b))) = b" for b :: byte
  proof -
    have "unat b < 256" using unsigned_less [of b, where ?'a = nat] by simp
    then show ?thesis by (simp add: code_def)
  qed
  then show ?thesis by (simp add: text_of_def bytes_of_def comp_def map_idI)
qed

lemma bytes_of_append [simp]: "bytes_of (s @ t) = bytes_of s @ bytes_of t"
  by (simp add: bytes_of_def)

lemma length_text_of [simp]: "length (text_of bs) = length bs"
  and length_bytes_of [simp]: "length (bytes_of s) = length s"
  by (simp_all add: text_of_def bytes_of_def)

section \<open>The reading loop\<close>

datatype ('e, 'r) outcome = NeedMore | Reject 'e | Accept 'r nat

text \<open>
  What a socket delivers, call by call: an error or some bytes. A script that has run out stands
  for a call that has not returned yet, and then the loop has no result.
\<close>

type_synonym 'b script = "(string + 'b list) list"

fun read_until ::
  "('b list \<Rightarrow> ('e, 'r) outcome) \<Rightarrow> 'b list \<Rightarrow> 'b script \<Rightarrow>
   (('e + string + 'r) \<times> 'b list \<times> 'b script) option" where
  "read_until parse buf script =
     (case parse buf of
        Accept r n \<Rightarrow> Some (Inr (Inr r), drop n buf, script)
      | Reject e \<Rightarrow> Some (Inl e, buf, script)
      | NeedMore \<Rightarrow>
         (case script of
            [] \<Rightarrow> None
          | Inl err # script' \<Rightarrow> Some (Inr (Inl err), buf, script')
          | Inr chunk # script' \<Rightarrow> read_until parse (buf @ chunk) script'))"

declare read_until.simps [simp del]

text \<open>The bytes of the deliveries before the first error.\<close>

fun delivered :: "'b script \<Rightarrow> 'b list" where
  "delivered (Inr chunk # script) = chunk @ delivered script"
| "delivered _ = []"

text \<open>A read that ends in an error of the socket has taken all bytes delivered before it.\<close>

lemma read_until_error:
  "read_until parse buf script = Some (Inr (Inl err), buf', script') \<Longrightarrow>
     buf' = buf @ delivered script \<and> parse buf' = NeedMore"
proof (induction script arbitrary: buf)
  case Nil
  then show ?case by (simp add: read_until.simps [of parse buf] split: outcome.split_asm)
next
  case (Cons d script)
  show ?case
  proof (cases d)
    case (Inl e)
    with Cons.prems show ?thesis by (simp add: read_until.simps [of parse buf] split: outcome.split_asm)
  next
    case (Inr chunk)
    with Cons.prems Cons.IH [of "buf @ chunk"] show ?thesis
      by (auto simp: read_until.simps [of parse buf] split: outcome.split_asm)
  qed
qed

locale stream_parser =
  fixes parse :: "'b list \<Rightarrow> ('e, 'r) outcome"
  assumes accept_bound: "parse bs = Accept r n \<Longrightarrow> n \<le> length bs"
    and accept_stable: "parse bs = Accept r n \<Longrightarrow> parse (bs @ cs) = Accept r n"
begin

text \<open>
  An accepted message is a prefix of the stream, found by the parser on that prefix alone or any
  longer one, and what is left over in the buffer and the script is the rest of the stream.
\<close>

lemma read_until_accept:
  "read_until parse buf script = Some (Inr (Inr r), buf', script') \<Longrightarrow>
     \<exists>n. parse (buf @ delivered script) = Accept r n \<and> n \<le> length (buf @ delivered script) \<and>
         buf' @ delivered script' = drop n (buf @ delivered script)"
proof (induction script arbitrary: buf)
  case Nil
  then show ?case
    using accept_bound by (auto simp: read_until.simps [of parse buf] split: outcome.split_asm)
next
  case (Cons d script)
  show ?case
  proof (cases "parse buf")
    case NeedMore
    with Cons.prems obtain chunk where d: "d = Inr chunk" by (cases d) (auto simp: read_until.simps [of parse buf])
    with NeedMore Cons.prems Cons.IH [of "buf @ chunk"] show ?thesis
      by (simp add: read_until.simps [of parse buf])
  next
    case (Accept r' n)
    with Cons.prems accept_bound [OF Accept] accept_stable [OF Accept] show ?thesis
      by (auto simp: read_until.simps [of parse buf])
  qed (use Cons.prems in \<open>simp add: read_until.simps [of parse buf]\<close>)
qed

text \<open>Two ways of cutting one stream into deliveries that both yield a message yield the same one.\<close>

lemma accept_unique:
  assumes "read_until parse buf1 script1 = Some (Inr (Inr r1), buf1', script1')"
    and "read_until parse buf2 script2 = Some (Inr (Inr r2), buf2', script2')"
    and "buf1 @ delivered script1 = buf2 @ delivered script2"
  shows "r1 = r2 \<and> buf1' @ delivered script1' = buf2' @ delivered script2'"
  using read_until_accept [OF assms(1)] read_until_accept [OF assms(2)] assms(3) by auto

lemma accept_prefix:
  "parse (take n bs) = Accept r n \<Longrightarrow> n \<le> length bs \<Longrightarrow> parse bs = Accept r n"
  using accept_stable [of "take n bs" r n "drop n bs"] by simp

end

text \<open>A parser that also never takes back a rejection, and looks at no byte past the message it accepts.\<close>

locale strict_stream_parser = stream_parser +
  assumes reject_stable: "parse bs = Reject e \<Longrightarrow> parse (bs @ cs) = Reject e"
    and accept_exact: "parse bs = Accept r n \<Longrightarrow> parse (take n bs) = Accept r n"
begin

text \<open>The loop's verdict is that of the parser on the whole stream.\<close>

lemma read_until_reject:
  "read_until parse buf script = Some (Inl e, buf', script') \<Longrightarrow> parse (buf @ delivered script) = Reject e"
proof (induction script arbitrary: buf)
  case Nil
  then show ?case by (simp add: read_until.simps [of parse buf] split: outcome.split_asm)
next
  case (Cons d script)
  show ?case
  proof (cases "parse buf")
    case NeedMore
    with Cons.prems obtain chunk where d: "d = Inr chunk" by (cases d) (auto simp: read_until.simps [of parse buf])
    with NeedMore Cons.prems Cons.IH [of "buf @ chunk"] show ?thesis
      by (simp add: read_until.simps [of parse buf])
  next
    case (Reject e')
    with Cons.prems reject_stable [OF Reject] show ?thesis
      by (auto simp: read_until.simps [of parse buf])
  qed (use Cons.prems in \<open>simp add: read_until.simps [of parse buf]\<close>)
qed

lemma prefix_needs_more:
  assumes "parse bs = Accept r n" and "m < n"
  shows "parse (take m bs) = NeedMore"
proof (cases "parse (take m bs)")
  case (Reject e)
  from reject_stable [OF this, of "drop m bs"] assms(1) show ?thesis by simp
next
  case (Accept r' n')
  from accept_stable [OF this, of "drop m bs"] assms accept_bound [OF Accept] show ?thesis by simp
qed simp

text \<open>A message or an error that the parser finds in the delivered bytes is returned by the loop.\<close>

lemma read_until_finds:
  "parse (buf @ delivered script) = Accept r n \<Longrightarrow>
     \<exists>buf' script'. read_until parse buf script = Some (Inr (Inr r), buf', script') \<and>
       buf' @ delivered script' = drop n (buf @ delivered script)"
proof (induction script arbitrary: buf)
  case Nil
  then show ?case by (simp add: read_until.simps)
next
  case (Cons d script)
  show ?case
  proof (cases "parse buf")
    case NeedMore
    with Cons.prems obtain chunk where d: "d = Inr chunk" by (cases d) auto
    with Cons.prems Cons.IH [of "buf @ chunk"] NeedMore show ?thesis
      by (simp add: read_until.simps [of parse buf])
  next
    case (Reject e)
    with reject_stable [OF Reject] Cons.prems show ?thesis by simp
  next
    case (Accept r' n')
    with accept_stable [OF Accept, of "delivered (d # script)"] accept_bound [OF Accept] Cons.prems show ?thesis
      by (simp add: read_until.simps [of parse buf])
  qed
qed

lemma read_until_rejects:
  "parse (buf @ delivered script) = Reject e \<Longrightarrow>
     \<exists>buf' script'. read_until parse buf script = Some (Inl e, buf', script')"
proof (induction script arbitrary: buf)
  case Nil
  then show ?case by (simp add: read_until.simps)
next
  case (Cons d script)
  show ?case
  proof (cases "parse buf")
    case NeedMore
    with Cons.prems obtain chunk where d: "d = Inr chunk" by (cases d) auto
    with Cons.prems Cons.IH [of "buf @ chunk"] NeedMore show ?thesis
      by (simp add: read_until.simps [of parse buf])
  next
    case (Reject e')
    with reject_stable [OF Reject, of "delivered (d # script)"] Cons.prems show ?thesis
      by (simp add: read_until.simps [of parse buf])
  next
    case (Accept r' n')
    with accept_stable [OF Accept] Cons.prems show ?thesis by simp
  qed
qed

end

end
