(* ===== verification/Http_Response.thy ===== *)
theory Http_Response
  imports Byte_Stream
begin

text \<open>
  \<open>include/http_response.hpp\<close> and \<open>src/protocol/http_response.cpp\<close>: the incremental HTTP/1.1
  response parser. Bytes are read as characters (\<open>string\<close>). \<open>find_from\<close> is
  \<open>string_view::find\<close> with a start position, \<open>None\<close> for \<open>npos\<close>. The parser's result is an
  error, no response yet (\<open>Inr None\<close>), or a response and the bytes it took.
\<close>

section \<open>Definitions\<close>

record HttpResponse =
  status :: int
  keep_alive :: bool
  http_body :: string

record ParsedHttpResponse =
  response :: HttpResponse
  http_consumed :: nat

definition kMaxHttpHeaderBytes :: nat where
  "kMaxHttpHeaderBytes = 64 * 1024"

definition kMaxHttpBodyBytes :: nat where
  "kMaxHttpBodyBytes = 16 * 1024 * 1024"

definition kCrlf :: string where
  "kCrlf = [CR, LF]"

fun find_at :: "string \<Rightarrow> string \<Rightarrow> nat option" where
  "find_at pat [] = (if pat = [] then Some 0 else None)"
| "find_at pat (c # s) =
     (if take (length pat) (c # s) = pat then Some 0 else map_option Suc (find_at pat s))"

definition find_from :: "string \<Rightarrow> string \<Rightarrow> nat \<Rightarrow> nat option" where
  "find_from pat data pos = map_option (\<lambda>i. pos + i) (find_at pat (drop pos data))"

lemma find_at_bound: "find_at pat s = Some i \<Longrightarrow> i + length pat \<le> length s"
proof (induction s arbitrary: i)
  case (Cons c s)
  show ?case
  proof (cases "take (length pat) (c # s) = pat")
    case True
    then have "length pat \<le> length (c # s)" by (metis length_take min.cobounded1)
    with True Cons.prems show ?thesis by simp
  next
    case False
    with Cons show ?thesis by auto
  qed
qed (simp split: if_splits)

lemma find_from_bound:
  assumes "find_from pat data pos = Some e" and "pat \<noteq> []"
  shows "pos \<le> e" "e + length pat \<le> length data"
proof -
  obtain i where i: "find_at pat (drop pos data) = Some i" "e = pos + i"
    using assms(1) by (auto simp: find_from_def)
  with find_at_bound [OF i(1)] assms(2) show "pos \<le> e" "e + length pat \<le> length data"
    by (cases pat; auto)+
qed

lemma kCrlf_simps [simp]: "kCrlf \<noteq> []" "length kCrlf = 2"
  by (simp_all add: kCrlf_def)

definition lower :: "char \<Rightarrow> char" where
  "lower c = (if 65 \<le> code c \<and> code c \<le> 90 then char_of (code c + 32) else c)"

definition ichar_equal :: "char \<Rightarrow> char \<Rightarrow> bool" where
  "ichar_equal x y \<longleftrightarrow> lower x = lower y"

definition iequals :: "string \<Rightarrow> string \<Rightarrow> bool" where
  "iequals a b \<longleftrightarrow> list_all2 ichar_equal a b"

definition icontains :: "string \<Rightarrow> string \<Rightarrow> bool" where
  "icontains haystack needle \<longleftrightarrow>
     list_ex (\<lambda>i. iequals (take (length needle) (drop i haystack)) needle) [0..<Suc (length haystack)]"

definition is_blank :: "char \<Rightarrow> bool" where
  "is_blank c \<longleftrightarrow> c = CHR '' '' \<or> c = TAB"

definition trim :: "string \<Rightarrow> string" where
  "trim s = rev (dropWhile is_blank (rev (dropWhile is_blank s)))"

record Headers =
  h_status :: int
  h_http10 :: bool
  h_content_length :: "nat option"
  h_chunked :: bool
  h_connection_keep_alive :: "bool option"

definition parse_size :: "string \<Rightarrow> nat option" where
  "parse_size value =
     (case from_chars UINT64_MAX value of
        Some (len, rest) \<Rightarrow> if rest = [] then Some len else None
      | None \<Rightarrow> None)"

text \<open>One header line.\<close>

definition header_line :: "string \<Rightarrow> Headers \<Rightarrow> string + Headers" where
  "header_line line h =
     (case find_at '':'' line of
        None \<Rightarrow> Inl ''Malformed HTTP header line''
      | Some colon \<Rightarrow>
          if colon = 0 then Inl ''Malformed HTTP header line''
          else
            let name = take colon line; value = trim (drop (colon + 1) line) in
            if iequals name ''content-length'' then
              (case parse_size value of
                 None \<Rightarrow> Inl ''Malformed Content-Length''
               | Some len \<Rightarrow>
                   if h_content_length h \<noteq> None \<and> h_content_length h \<noteq> Some len
                   then Inl ''Conflicting Content-Length headers''
                   else Inr (h\<lparr>h_content_length := Some len\<rparr>))
            else if iequals name ''transfer-encoding'' then
              Inr (h\<lparr>h_chunked := icontains value ''chunked''\<rparr>)
            else if iequals name ''connection'' then
              (if icontains value ''close'' then Inr (h\<lparr>h_connection_keep_alive := Some False\<rparr>)
               else if icontains value ''keep-alive'' then Inr (h\<lparr>h_connection_keep_alive := Some True\<rparr>)
               else Inr h)
            else Inr h)"

text \<open>The loop over the header lines; \<open>head_end\<close> is where the line at \<open>pos\<close> ends.\<close>

definition line_end_at :: "string \<Rightarrow> nat \<Rightarrow> nat" where
  "line_end_at head pos = (case find_from kCrlf head pos of None \<Rightarrow> length head | Some e \<Rightarrow> e)"

lemma line_end_at_ge: "pos < length head \<Longrightarrow> pos \<le> line_end_at head pos"
  by (auto simp: line_end_at_def find_from_def split: option.split)

function headers_loop :: "string \<Rightarrow> nat \<Rightarrow> Headers \<Rightarrow> string + Headers" where
  "headers_loop head pos h =
     (if pos < length head then
        let line_end = line_end_at head pos;
            line = take (line_end - pos) (drop pos head) in
        case header_line line h of
          Inl e \<Rightarrow> Inl e
        | Inr h' \<Rightarrow> headers_loop head (line_end + 2) h'
      else Inr h)"
  by pat_completeness auto
termination
proof (relation "measure (\<lambda>(head, pos, h). length head - pos)", goal_cases)
  case (2 head pos h line_end line h')
  then show ?case using line_end_at_ge [of pos head] by simp
qed simp

declare headers_loop.simps [simp del]

definition parse_headers :: "string \<Rightarrow> string + Headers" where
  "parse_headers head =
     (let line_end = find_from kCrlf head 0;
          status_line = (case line_end of None \<Rightarrow> head | Some e \<Rightarrow> take e head) in
      if length status_line < 12 \<or> take 7 status_line \<noteq> ''HTTP/1.'' \<or> status_line ! 8 \<noteq> CHR '' ''
      then Inl ''Malformed HTTP status line''
      else
        case from_chars_int (take 3 (drop 9 status_line)) of
          None \<Rightarrow> Inl ''Malformed HTTP status code''
        | Some (st, _) \<Rightarrow>
            if st < 100 \<or> st > 599 then Inl ''Malformed HTTP status code''
            else headers_loop head (case line_end of None \<Rightarrow> length head | Some e \<Rightarrow> e + 2)
                   \<lparr>h_status = st, h_http10 = (status_line ! 7 = CHR ''0''), h_content_length = None,
                    h_chunked = False, h_connection_keep_alive = None\<rparr>)"

text \<open>The trailer loop of \<open>decode_chunked\<close>: the position after the empty line, if it is there.\<close>

function trailer_loop :: "string \<Rightarrow> nat \<Rightarrow> nat option" where
  "trailer_loop data pos =
     (case find_from kCrlf data pos of
        None \<Rightarrow> None
      | Some trailer_end \<Rightarrow>
          if trailer_end = pos then Some (trailer_end + 2) else trailer_loop data (trailer_end + 2))"
  by pat_completeness auto
termination
proof (relation "measure (\<lambda>(data, pos). length data - pos)", goal_cases)
  case (2 data pos trailer_end)
  then show ?case using find_from_bound [of kCrlf data pos trailer_end] by simp
qed simp

declare trailer_loop.simps [simp del]

text \<open>The size of the chunk whose size line ends at \<open>line_end\<close>.\<close>

definition chunk_size_at :: "string \<Rightarrow> nat \<Rightarrow> nat \<Rightarrow> nat option" where
  "chunk_size_at data pos line_end =
     (let line = take (line_end - pos) (drop pos data);
          size_str = trim (case find_at '';'' line of None \<Rightarrow> line | Some i \<Rightarrow> take i line) in
      case from_chars_hex UINT64_MAX size_str of
        Some (n, rest) \<Rightarrow> if rest = [] then Some n else None
      | None \<Rightarrow> None)"

function decode_chunked :: "string \<Rightarrow> nat \<Rightarrow> string \<Rightarrow> string + (nat \<times> string) option" where
  "decode_chunked data pos body =
     (case find_from kCrlf data pos of
        None \<Rightarrow>
          if length data - pos > 1024 then Inl ''Chunk size line too long'' else Inr None
      | Some line_end \<Rightarrow>
         (case chunk_size_at data pos line_end of
            None \<Rightarrow> Inl ''Malformed chunk size''
          | Some chunk_size \<Rightarrow>
              let pos1 = line_end + 2 in
              if chunk_size = 0 then
                Inr (map_option (\<lambda>e. (e, body)) (trailer_loop data pos1))
              else if chunk_size > kMaxHttpBodyBytes \<or> length body + chunk_size > kMaxHttpBodyBytes
              then Inl ''HTTP body too large''
              else if length data - pos1 < chunk_size + 2 then Inr None
              else if take 2 (drop (pos1 + chunk_size) data) \<noteq> kCrlf
              then Inl ''Missing CRLF after chunk data''
              else decode_chunked data (pos1 + chunk_size + 2) (body @ take chunk_size (drop pos1 data))))"
  by pat_completeness auto
termination
proof (relation "measure (\<lambda>(data, pos, body). length data - pos)", goal_cases)
  case (2 data pos body line_end chunk_size pos1)
  then show ?case using find_from_bound [of kCrlf data pos line_end] by simp
qed simp

declare decode_chunked.simps [simp del]

definition header_end_mark :: string where
  "header_end_mark = [CR, LF, CR, LF]"

text \<open>The part of \<open>parse_http_response\<close> after the headers.\<close>

definition body_of :: "Headers \<Rightarrow> string \<Rightarrow> nat \<Rightarrow> bool \<Rightarrow> string + ParsedHttpResponse option" where
  "body_of headers data body_start eof =
     (let alive = (case h_connection_keep_alive headers of None \<Rightarrow> \<not> h_http10 headers | Some k \<Rightarrow> k);
          parsed = (\<lambda>alive body n.
            Inr (Some \<lparr>response = \<lparr>status = h_status headers, keep_alive = alive, http_body = body\<rparr>,
                       http_consumed = n\<rparr>)) in
      if h_chunked headers then
        (case decode_chunked data body_start [] of
           Inl e \<Rightarrow> Inl e
         | Inr None \<Rightarrow> if eof then Inl ''Connection closed mid-chunked body'' else Inr None
         | Inr (Some (e, body)) \<Rightarrow> parsed alive body e)
      else
        case h_content_length headers of
          Some len \<Rightarrow>
            if len > kMaxHttpBodyBytes then Inl ''HTTP body too large''
            else if length data - body_start < len then
              (if eof then Inl ''Connection closed before HTTP body was complete'' else Inr None)
            else parsed alive (take len (drop body_start data)) (body_start + len)
        | None \<Rightarrow>
            if h_status headers < 200 \<or> h_status headers = 204 \<or> h_status headers = 304
            then parsed alive [] body_start
            else if \<not> eof then Inr None
            else if length data - body_start > kMaxHttpBodyBytes then Inl ''HTTP body too large''
            else parsed False (drop body_start data) (length data))"

definition parse_http_response :: "string \<Rightarrow> bool \<Rightarrow> string + ParsedHttpResponse option" where
  "parse_http_response data eof =
     (case find_at header_end_mark data of
        None \<Rightarrow>
          if length data > kMaxHttpHeaderBytes then Inl ''HTTP headers too large''
          else if eof then Inl ''Connection closed before HTTP headers were complete''
          else Inr None
      | Some header_end \<Rightarrow>
          if header_end > kMaxHttpHeaderBytes then Inl ''HTTP headers too large''
          else
            case parse_headers (take header_end data) of
              Inl e \<Rightarrow> Inl e
            | Inr headers \<Rightarrow> body_of headers data (header_end + 4) eof)"

lemma header_end_mark_simps [simp]: "header_end_mark \<noteq> []" "length header_end_mark = 4"
  by (simp_all add: header_end_mark_def)

section \<open>Searching a growing buffer\<close>

lemma find_at_append: "find_at pat s = Some i \<Longrightarrow> find_at pat (s @ t) = Some i"
proof (induction s arbitrary: i)
  case (Cons c s)
  show ?case
  proof (cases "take (length pat) (c # s) = pat")
    case True
    then have "length pat \<le> length (c # s)" by (metis length_take min.cobounded1)
    with True have "take (length pat) ((c # s) @ t) = pat" by (metis take_all_iff take_append append_Nil2 diff_is_0_eq take_0)
    with True Cons.prems show ?thesis by simp
  next
    case False
    with Cons.prems obtain j where j: "find_at pat s = Some j" "i = Suc j" by auto
    have "length pat \<le> length s" using find_at_bound [OF j(1)] by simp
    then have "take (length pat) ((c # s) @ t) = take (length pat) (c # s)" by (cases pat) simp_all
    with False j Cons.IH [OF j(1)] show ?thesis by simp
  qed
next
  case Nil
  then show ?case by (cases t) (simp_all split: if_splits)
qed

lemma find_from_append:
  assumes "find_from pat data pos = Some e" and "pat \<noteq> []"
  shows "find_from pat (data @ x) pos = Some e"
proof -
  have "pos \<le> length data" using find_from_bound [OF assms] by simp
  with assms(1) show ?thesis by (auto simp: find_from_def intro: find_at_append)
qed

lemma trailer_loop_bound: "trailer_loop data pos = Some e \<Longrightarrow> pos < e \<and> e \<le> length data"
proof (induction data pos rule: trailer_loop.induct)
  case (1 data pos)
  from "1.prems" obtain t where t: "find_from kCrlf data pos = Some t"
    by (simp add: trailer_loop.simps [of data pos] split: option.split_asm)
  note b = find_from_bound [OF t, simplified]
  from "1.prems" "1.IH" [OF t] t b show ?case
    by (fastforce simp: trailer_loop.simps [of data pos] split: if_split_asm)
qed

lemma trailer_loop_append: "trailer_loop data pos = Some e \<Longrightarrow> trailer_loop (data @ x) pos = Some e"
proof (induction data pos rule: trailer_loop.induct)
  case (1 data pos)
  from "1.prems" obtain t where t: "find_from kCrlf data pos = Some t"
    by (simp add: trailer_loop.simps [of data pos] split: option.split_asm)
  note t' = find_from_append [OF t, of x, simplified]
  from "1.prems" "1.IH" [OF t] t t' show ?case
    by (simp add: trailer_loop.simps [of data pos] trailer_loop.simps [of "data @ x" pos] split: if_split_asm)
qed

lemma chunk_size_at_append:
  "line_end \<le> length data \<Longrightarrow> chunk_size_at (data @ x) pos line_end = chunk_size_at data pos line_end"
proof -
  assume "line_end \<le> length data"
  then have "take (line_end - pos) (drop pos (data @ x)) = take (line_end - pos) (drop pos data)"
    by (cases "pos \<le> length data") simp_all
  then show ?thesis by (simp only: chunk_size_at_def)
qed

text \<open>The ways \<open>decode_chunked\<close> returns a body.\<close>

lemma decode_chunked_SomeE:
  assumes "decode_chunked data pos body = Inr (Some (e, body'))"
  obtains (last_chunk) line_end where "find_from kCrlf data pos = Some line_end"
      "chunk_size_at data pos line_end = Some 0" "trailer_loop data (line_end + 2) = Some e" "body' = body"
  | (chunk) line_end n where "find_from kCrlf data pos = Some line_end"
      "chunk_size_at data pos line_end = Some n" "n \<noteq> 0" "\<not> (n > kMaxHttpBodyBytes \<or> length body + n > kMaxHttpBodyBytes)"
      "line_end + 2 + n + 2 \<le> length data" "take 2 (drop (line_end + 2 + n) data) = kCrlf"
      "decode_chunked data (line_end + 2 + n + 2) (body @ take n (drop (line_end + 2) data)) = Inr (Some (e, body'))"
proof -
  note d = assms [unfolded decode_chunked.simps [of data pos body] Let_def]
  obtain line_end where l: "find_from kCrlf data pos = Some line_end"
    using d by (auto split: option.split_asm if_split_asm)
  obtain n where n: "chunk_size_at data pos line_end = Some n"
    using d l by (auto split: option.split_asm)
  note d = d [unfolded l n option.case]
  show thesis
  proof (cases "n = 0")
    case True
    with d n last_chunk [OF l] show thesis by auto
  next
    case False
    with d chunk [OF l n False] show thesis by (auto split: if_split_asm)
  qed
qed

lemma decode_chunked_append:
  "decode_chunked data pos body = Inr (Some (e, body')) \<Longrightarrow>
     decode_chunked (data @ x) pos body = Inr (Some (e, body'))"
proof (induction data pos body rule: decode_chunked.induct)
  case (1 data pos body)
  note unf = decode_chunked.simps [of "data @ x" pos body]
  from "1.prems" show ?case
  proof (cases rule: decode_chunked_SomeE)
    case (last_chunk line_end)
    with find_from_append [OF last_chunk(1), of x] find_from_bound [OF last_chunk(1)] show ?thesis
      by (simp add: unf chunk_size_at_append trailer_loop_append)
  next
    case (chunk line_end n)
    have "decode_chunked (data @ x) (line_end + 2 + n + 2) (body @ take n (drop (line_end + 2) data)) = Inr (Some (e, body'))"
      using chunk by (intro "1.IH") auto
    moreover have "take 2 (drop (line_end + 2 + n) (data @ x)) = kCrlf"
      "take n (drop (line_end + 2) (data @ x)) = take n (drop (line_end + 2) data)"
      using chunk(5,6) by simp_all
    ultimately show ?thesis
      using chunk find_from_append [OF chunk(1), of x] find_from_bound [OF chunk(1)]
      by (simp add: unf chunk_size_at_append)
  qed
qed

lemma decode_chunked_bound:
  "decode_chunked data pos body = Inr (Some (e, body')) \<Longrightarrow>
     pos < e \<and> e \<le> length data \<and> (length body \<le> kMaxHttpBodyBytes \<longrightarrow> length body' \<le> kMaxHttpBodyBytes)"
proof (induction data pos body rule: decode_chunked.induct)
  case (1 data pos body)
  from "1.prems" show ?case
  proof (cases rule: decode_chunked_SomeE)
    case (last_chunk line_end)
    with find_from_bound [OF last_chunk(1)] trailer_loop_bound [OF last_chunk(3)] show ?thesis by auto
  next
    case (chunk line_end n)
    have "line_end + 2 + n + 2 < e \<and> e \<le> length data \<and>
        (length (body @ take n (drop (line_end + 2) data)) \<le> kMaxHttpBodyBytes \<longrightarrow> length body' \<le> kMaxHttpBodyBytes)"
      using chunk by (intro "1.IH") auto
    with chunk find_from_bound [OF chunk(1)] show ?thesis by auto
  qed
qed

section \<open>The parser on a growing buffer\<close>

lemma headers_loop_status: "headers_loop head pos h = Inr h' \<Longrightarrow> h_status h' = h_status h"
proof (induction head pos h rule: headers_loop.induct)
  case (1 head pos h)
  have line: "h_status h2 = h_status h1" if "header_line l h1 = Inr h2" for l h1 h2
    using that by (auto simp: header_line_def Let_def split: option.split_asm if_split_asm)
  show ?case
  proof (cases "pos < length head")
    case True
    with "1.prems" obtain h1 where
      "header_line (take (line_end_at head pos - pos) (drop pos head)) h = Inr h1"
      "headers_loop head (line_end_at head pos + 2) h1 = Inr h'"
      by (auto simp: headers_loop.simps [of head pos] Let_def split: sum.split_asm)
    with "1.IH" [OF True refl refl this(1)] line show ?thesis by simp
  next
    case False
    with "1.prems" show ?thesis by (simp add: headers_loop.simps [of head pos])
  qed
qed

lemma parse_headers_status: "parse_headers head = Inr h \<Longrightarrow> 100 \<le> h_status h \<and> h_status h \<le> 599"
  by (auto simp: parse_headers_def Let_def dest!: headers_loop_status split: option.split_asm if_split_asm prod.split_asm)

lemma parse_http_SomeE:
  assumes "parse_http_response data eof = Inr (Some r)"
  obtains header_end headers where "find_at header_end_mark data = Some header_end"
    "header_end \<le> kMaxHttpHeaderBytes" "header_end + 4 \<le> length data"
    "parse_headers (take header_end data) = Inr headers"
    "body_of headers data (header_end + 4) eof = Inr (Some r)"
proof -
  obtain i where i: "find_at header_end_mark data = Some i"
    using assms by (auto simp: parse_http_response_def split: option.split_asm if_split_asm)
  have "i + 4 \<le> length data" using find_at_bound [OF i] by (simp add: header_end_mark_def)
  with assms i that [OF i] show thesis
    by (auto simp: parse_http_response_def split: if_split_asm sum.split_asm)
qed

lemma body_of_append:
  "body_of headers data n False = Inr (Some r) \<Longrightarrow> n \<le> length data \<Longrightarrow> body_of headers (data @ x) n eof = Inr (Some r)"
  using decode_chunked_append [of data n "[]" _ _ x]
  by (auto simp: body_of_def Let_def split: if_split_asm option.split_asm sum.split_asm)

lemma body_of_bound:
  "body_of headers data n eof = Inr (Some r) \<Longrightarrow> n \<le> length data \<Longrightarrow>
     n \<le> http_consumed r \<and> http_consumed r \<le> length data \<and>
     length (http_body (response r)) \<le> kMaxHttpBodyBytes \<and> status (response r) = h_status headers"
  using decode_chunked_bound [of data n "[]"]
  by (fastforce simp: body_of_def Let_def split: if_split_asm option.split_asm sum.split_asm)

lemma parse_http_append:
  assumes "parse_http_response data False = Inr (Some r)"
  shows "parse_http_response (data @ x) eof = Inr (Some r)"
  using assms
proof (rule parse_http_SomeE)
  fix i headers
  assume a: "find_at header_end_mark data = Some i" "i \<le> kMaxHttpHeaderBytes" "i + 4 \<le> length data"
    "parse_headers (take i data) = Inr headers" "body_of headers data (i + 4) False = Inr (Some r)"
  from a find_at_append [OF a(1), of x] body_of_append [OF a(5,3), of x eof] show ?thesis
    by (simp add: parse_http_response_def)
qed

lemma parse_http_bound:
  assumes "parse_http_response data eof = Inr (Some r)"
  shows "0 < http_consumed r" "http_consumed r \<le> length data" "length (http_body (response r)) \<le> kMaxHttpBodyBytes"
    "100 \<le> status (response r)" "status (response r) \<le> 599"
proof -
  from assms obtain i headers where a: "i + 4 \<le> length data" "parse_headers (take i data) = Inr headers"
      "body_of headers data (i + 4) eof = Inr (Some r)"
    by (rule parse_http_SomeE)
  from body_of_bound [OF a(3,1)] parse_headers_status [OF a(2)]
  show "0 < http_consumed r" "http_consumed r \<le> length data" "length (http_body (response r)) \<le> kMaxHttpBodyBytes"
    "100 \<le> status (response r)" "status (response r) \<le> 599" by auto
qed

definition http_outcome :: "string \<Rightarrow> (string, HttpResponse) outcome" where
  "http_outcome data =
     (case parse_http_response data False of
        Inl e \<Rightarrow> Reject e
      | Inr None \<Rightarrow> NeedMore
      | Inr (Some r) \<Rightarrow> Accept (response r) (http_consumed r))"

lemma http_outcome_Accept:
  "http_outcome data = Accept r n \<longleftrightarrow>
     (\<exists>x. parse_http_response data False = Inr (Some x) \<and> r = response x \<and> n = http_consumed x)"
  by (auto simp: http_outcome_def split: sum.split option.split)

interpretation http: stream_parser http_outcome
  by unfold_locales (auto simp: http_outcome_Accept dest: parse_http_bound(2) parse_http_append)

section \<open>Chunked bodies\<close>

fun show_hex :: "nat \<Rightarrow> string" where
  "show_hex n = (if n < 16 then [hex_char n] else show_hex (n div 16) @ [hex_char (n mod 16)])"

declare show_hex.simps [simp del]

text \<open>A body cut into chunks, as a server sends it.\<close>

definition encode_chunk :: "string \<Rightarrow> string" where
  "encode_chunk c = show_hex (length c) @ kCrlf @ c @ kCrlf"

definition encode_chunks :: "string list \<Rightarrow> string" where
  "encode_chunks cs = concat (map encode_chunk cs) @ ''0'' @ kCrlf @ kCrlf"

lemma show_hex_digits: "list_all is_hex (show_hex n)"
proof (induction n rule: show_hex.induct)
  case (1 n)
  then show ?case using hex_char_val [of n] hex_char_val [of "n mod 16"]
    by (cases "n < 16") (auto simp: show_hex.simps [of n])
qed

lemma show_hex_not_Nil [simp]: "show_hex n \<noteq> []"
  by (subst show_hex.simps) simp

lemma hex_digits_val_show_hex: "hex_digits_val (show_hex n) = n"
proof (induction n rule: show_hex.induct)
  case (1 n)
  then show ?case using hex_char_val [of n] hex_char_val [of "n mod 16"]
    by (cases "n < 16") (auto simp: show_hex.simps [of n] hex_digits_val_def)
qed

lemma is_hex_special: "is_hex c \<Longrightarrow> c \<noteq> CR \<and> c \<noteq> CHR '';'' \<and> \<not> is_blank c"
  by (auto simp: is_hex_def is_digit_def code_def is_blank_def)

lemma find_at_fresh: "hd pat \<notin> set ds \<Longrightarrow> pat \<noteq> [] \<Longrightarrow> find_at pat (ds @ pat @ r) = Some (length ds)"
proof (induction ds)
  case Nil
  then show ?case by (cases pat) auto
next
  case (Cons d ds)
  then have "take (length pat) ((d # ds) @ pat @ r) \<noteq> pat" by (cases pat) auto
  with Cons show ?case by simp
qed

lemma find_at_absent: "c \<notin> set s \<Longrightarrow> find_at [c] s = None"
  by (induction s) auto

lemma trim_solid: "list_all (\<lambda>c. \<not> is_blank c) s \<Longrightarrow> trim s = s"
proof -
  have "dropWhile is_blank t = t" if "list_all (\<lambda>c. \<not> is_blank c) t" for t
    using that by (cases t) auto
  then show "list_all (\<lambda>c. \<not> is_blank c) s \<Longrightarrow> trim s = s" by (simp add: trim_def)
qed

lemma chunk_line:
  assumes "list_all is_hex ds" "ds \<noteq> []" "hex_digits_val ds \<le> UINT64_MAX"
  shows "find_from kCrlf (pre @ ds @ kCrlf @ r) (length pre) = Some (length pre + length ds)"
    "chunk_size_at (pre @ ds @ kCrlf @ r) (length pre) (length pre + length ds) = Some (hex_digits_val ds)"
proof -
  have sp: "\<forall>c \<in> set ds. c \<noteq> CR \<and> c \<noteq> CHR '';'' \<and> \<not> is_blank c"
    using assms(1) is_hex_special by (auto simp: list_all_iff)
  then have fresh: "hd kCrlf \<notin> set ds" by (auto simp: kCrlf_def)
  show "find_from kCrlf (pre @ ds @ kCrlf @ r) (length pre) = Some (length pre + length ds)"
    using find_at_fresh [OF fresh] by (simp add: find_from_def)
  have "find_at '';'' ds = None" using sp by (intro find_at_absent) auto
  moreover have "trim ds = ds" using sp by (intro trim_solid) (auto simp: list_all_iff)
  moreover have "from_chars_hex UINT64_MAX ds = Some (hex_digits_val ds, [])"
  proof -
    have tw: "takeWhile is_hex ds = ds" "dropWhile is_hex ds = []"
      using assms(1) by (auto simp: list_all_iff takeWhile_eq_all_conv dropWhile_eq_Nil_conv)
    show ?thesis unfolding from_chars_hex_def Let_def tw using assms(2,3) by simp
  qed
  ultimately show "chunk_size_at (pre @ ds @ kCrlf @ r) (length pre) (length pre + length ds) = Some (hex_digits_val ds)"
    by (simp add: chunk_size_at_def)
qed

lemma trailer_empty: "trailer_loop (pre @ kCrlf @ r) (length pre) = Some (length pre + 2)"
  using find_at_fresh [of kCrlf "[]" r] by (simp add: trailer_loop.simps find_from_def)

lemma decode_chunk:
  assumes "c \<noteq> []" "length body + length c \<le> kMaxHttpBodyBytes"
  shows "decode_chunked (pre @ encode_chunk c @ r) (length pre) body =
    decode_chunked (pre @ encode_chunk c @ r) (length (pre @ encode_chunk c)) (body @ c)"
proof -
  have "length c \<le> UINT64_MAX" using assms(2) by (simp add: UINT64_MAX_def kMaxHttpBodyBytes_def)
  note l = chunk_line [OF show_hex_digits [of "length c"] show_hex_not_Nil, of pre "c @ kCrlf @ r",
      unfolded hex_digits_val_show_hex, OF this]
  show ?thesis
    using assms l by (subst decode_chunked.simps) (simp add: encode_chunk_def add.assoc)
qed

lemma decode_chunks:
  assumes "list_all (\<lambda>c. c \<noteq> []) cs" "length body + length (concat cs) \<le> kMaxHttpBodyBytes"
  shows "decode_chunked (pre @ encode_chunks cs @ r) (length pre) body =
    Inr (Some (length (pre @ encode_chunks cs), body @ concat cs))"
  using assms
proof (induction cs arbitrary: pre body)
  case Nil
  note l = chunk_line [of "''0''" pre "kCrlf @ r"]
  have "hex_digits_val ''0'' = 0" "list_all is_hex ''0''"
    by (simp_all add: hex_digits_val_def hex_val_def is_hex_def is_digit_def code_def)
  with l trailer_empty [of "pre @ ''0'' @ kCrlf" r] show ?case
    by (subst decode_chunked.simps) (simp add: encode_chunks_def UINT64_MAX_def numeral_3_eq_3 add.commute)
next
  case (Cons c cs)
  let ?r = "encode_chunks cs @ r"
  have e: "pre @ encode_chunks (c # cs) @ r = pre @ encode_chunk c @ ?r"
    by (simp add: encode_chunks_def)
  have "decode_chunked (pre @ encode_chunk c @ ?r) (length pre) body =
      decode_chunked (pre @ encode_chunk c @ ?r) (length (pre @ encode_chunk c)) (body @ c)"
    using Cons.prems by (intro decode_chunk) auto
  also have "\<dots> = Inr (Some (length ((pre @ encode_chunk c) @ encode_chunks cs), (body @ c) @ concat cs))"
    using Cons.IH [of "body @ c" "pre @ encode_chunk c"] Cons.prems by simp
  finally show ?case unfolding e by (simp add: encode_chunks_def)
qed

section \<open>Properties\<close>

text \<open>
  C23. A response once complete stays what it is: if the parser accepts the bytes received so far,
  it accepts the same response, with the same length, from any longer buffer and at connection
  close. The response lies within the buffer, its body is at most 16 MiB and its status is
  between 100 and 599.
\<close>

theorem http_response_stable:
  assumes "parse_http_response data False = Inr (Some r)"
  shows "parse_http_response (data @ x) eof = Inr (Some r) \<and>
    0 < http_consumed r \<and> http_consumed r \<le> length data \<and>
    length (http_body (response r)) \<le> kMaxHttpBodyBytes \<and>
    100 \<le> status (response r) \<and> status (response r) \<le> 599"
  using parse_http_append [OF assms] parse_http_bound [OF assms] by simp

text \<open>
  C24. Connection close never truncates a framed body: a response returned at end of stream is either
  one that was already complete before, or it has no framing at all (the headers give neither a
  length nor chunks), and then it is the whole rest of the stream and the connection is not kept.
\<close>

theorem http_response_at_close:
  assumes "parse_http_response data True = Inr (Some r)"
  shows "parse_http_response data False = Inr (Some r) \<or>
    (parse_http_response data False = Inr None \<and> \<not> keep_alive (response r) \<and> http_consumed r = length data \<and>
     (\<exists>i headers. find_at header_end_mark data = Some i \<and> parse_headers (take i data) = Inr headers \<and>
        \<not> h_chunked headers \<and> h_content_length headers = None \<and> http_body (response r) = drop (i + 4) data))"
  using assms
proof (rule parse_http_SomeE)
  fix i headers
  assume a: "find_at header_end_mark data = Some i" "i \<le> kMaxHttpHeaderBytes" "i + 4 \<le> length data"
    "parse_headers (take i data) = Inr headers" "body_of headers data (i + 4) True = Inr (Some r)"
  then have p: "parse_http_response data False = body_of headers data (i + 4) False"
    by (simp add: parse_http_response_def)
  from a(5) have "body_of headers data (i + 4) False = Inr (Some r) \<or>
      (body_of headers data (i + 4) False = Inr None \<and> \<not> keep_alive (response r) \<and> http_consumed r = length data \<and>
       \<not> h_chunked headers \<and> h_content_length headers = None \<and> http_body (response r) = drop (i + 4) data)"
    by (auto simp: body_of_def Let_def split: if_split_asm sum.split_asm option.split_asm)
  with p a show ?thesis by auto
qed

text \<open>
  C25. Chunked bodies: after headers that announce chunking, a body of at most 16 MiB sent as any
  sequence of non-empty chunks and the terminating chunk is returned whole, and the response ends
  exactly where the chunks end, whatever follows.
\<close>

theorem http_chunked_body:
  assumes "find_at header_end_mark (head @ header_end_mark) = Some (length head)"
    and "length head \<le> kMaxHttpHeaderBytes" and "parse_headers head = Inr headers" and "h_chunked headers"
    and "list_all (\<lambda>c. c \<noteq> []) cs" and "length (concat cs) \<le> kMaxHttpBodyBytes"
  shows "\<exists>r. parse_http_response (head @ header_end_mark @ encode_chunks cs @ rest) eof = Inr (Some r) \<and>
    http_body (response r) = concat cs \<and> status (response r) = h_status headers \<and>
    http_consumed r = length (head @ header_end_mark @ encode_chunks cs)"
proof -
  let ?data = "head @ header_end_mark @ encode_chunks cs @ rest"
  have f: "find_at header_end_mark ?data = Some (length head)"
    using find_at_append [OF assms(1), of "encode_chunks cs @ rest"] by simp
  have d: "decode_chunked ?data (length head + 4) [] =
      Inr (Some (length (head @ header_end_mark @ encode_chunks cs), concat cs))"
    using decode_chunks [OF assms(5), of "[]" "head @ header_end_mark" rest] assms(6) by simp
  show ?thesis using assms(2-4)
    by (simp add: parse_http_response_def f body_of_def Let_def d)
qed

text \<open>
  Bodies of declared length: after headers with a \<open>Content-Length\<close> of at most 16 MiB and no
  chunking, the response is complete exactly when that many bytes have arrived; they are its body
  and it ends right after them.
\<close>

theorem http_content_length_body:
  assumes "find_at header_end_mark (head @ header_end_mark) = Some (length head)"
    and "length head \<le> kMaxHttpHeaderBytes" and "parse_headers head = Inr headers" and "\<not> h_chunked headers"
    and "h_content_length headers = Some n" and "n \<le> kMaxHttpBodyBytes"
  shows "if n \<le> length received
    then \<exists>r. parse_http_response (head @ header_end_mark @ received) eof = Inr (Some r) \<and>
      http_body (response r) = take n received \<and> http_consumed r = length (head @ header_end_mark) + n
    else parse_http_response (head @ header_end_mark @ received) False = Inr None"
proof -
  have "find_at header_end_mark (head @ header_end_mark @ received) = Some (length head)"
    using find_at_append [OF assms(1), of received] by simp
  then show ?thesis using assms(2-6)
    by (auto simp: parse_http_response_def body_of_def Let_def)
qed

definition chunked_head :: string where
  "chunked_head = ''HTTP/1.1 200 OK'' @ kCrlf @ ''Transfer-Encoding: chunked''"

definition length_head :: string where
  "length_head = ''HTTP/1.1 200 OK'' @ kCrlf @ ''Content-Length: 2''"

definition ok_headers :: Headers where
  "ok_headers = \<lparr>h_status = 200, h_http10 = False, h_content_length = None, h_chunked = False,
     h_connection_keep_alive = None\<rparr>"

lemma find_at_no_first: "hd pat \<notin> set s \<Longrightarrow> pat \<noteq> [] \<Longrightarrow> find_at pat s = None"
proof (induction s)
  case (Cons c s)
  then have "take (length pat) (c # s) \<noteq> pat" by (cases pat) auto
  with Cons show ?case by simp
qed simp

lemma parse_headers_one:
  assumes "CR \<notin> set line" "line \<noteq> []"
  shows "parse_headers (''HTTP/1.1 200 OK'' @ kCrlf @ line) =
    (case header_line line ok_headers of Inl e \<Rightarrow> Inl e | Inr h \<Rightarrow> Inr h)"
proof -
  let ?head = "''HTTP/1.1 200 OK'' @ kCrlf @ line"
  have e: "find_from kCrlf ?head 0 = Some 15"
    using find_at_fresh [of kCrlf "''HTTP/1.1 200 OK''" line] by (simp add: find_from_def kCrlf_def)
  have st: "from_chars_int ''200'' = Some (200, [])"
    by (simp add: from_chars_int_def from_chars_def is_digit_def code_def digits_val_def digit_val_def INT32_MAX_def)
  have d: "drop 17 ?head = line" by (simp add: kCrlf_def)
  have len: "length ?head = 17 + length line" by simp
  have "line_end_at ?head 17 = length ?head"
    using assms(1) d find_at_no_first [of kCrlf line] by (simp add: line_end_at_def find_from_def kCrlf_def)
  then have "headers_loop ?head 17 h = (case header_line line h of Inl e \<Rightarrow> Inl e | Inr h \<Rightarrow> Inr h)" for h
    using d len assms(2) by (simp add: headers_loop.simps Let_def del: append_Cons split: sum.split)
  with e st show ?thesis
    by (simp add: parse_headers_def ok_headers_def kCrlf_def)
qed

lemma header_line_samples:
  "header_line ''Transfer-Encoding: chunked'' h = Inr (h\<lparr>h_chunked := True\<rparr>)"
  "h_content_length h = None \<Longrightarrow> header_line ''Content-Length: 2'' h = Inr (h\<lparr>h_content_length := Some 2\<rparr>)"
proof -
  have "\<not> iequals ''Transfer-Encoding'' ''content-length''" "iequals ''Transfer-Encoding'' ''transfer-encoding''"
    "icontains (trim '' chunked'') ''chunked''" by code_simp+
  then show "header_line ''Transfer-Encoding: chunked'' h = Inr (h\<lparr>h_chunked := True\<rparr>)"
    by (simp add: header_line_def)
  have "iequals ''Content-Length'' ''content-length''" "trim '' 2'' = ''2''" by code_simp+
  moreover have "parse_size ''2'' = Some 2"
    by (simp add: parse_size_def from_chars_def is_digit_def code_def digits_val_def digit_val_def UINT64_MAX_def)
  ultimately show "h_content_length h = None \<Longrightarrow> header_line ''Content-Length: 2'' h = Inr (h\<lparr>h_content_length := Some 2\<rparr>)"
    by (simp add: header_line_def)
qed

lemma sample_heads:
  "find_at header_end_mark (chunked_head @ header_end_mark) = Some (length chunked_head)"
  "length chunked_head \<le> kMaxHttpHeaderBytes"
  "parse_headers chunked_head = Inr (ok_headers\<lparr>h_chunked := True\<rparr>)"
  "find_at header_end_mark (length_head @ header_end_mark) = Some (length length_head)"
  "length length_head \<le> kMaxHttpHeaderBytes"
  "parse_headers length_head = Inr (ok_headers\<lparr>h_content_length := Some 2\<rparr>)"
  by (simp_all add: chunked_head_def length_head_def header_end_mark_def kCrlf_def kMaxHttpHeaderBytes_def)
    (simp_all add: parse_headers_one [unfolded kCrlf_def, simplified] header_line_samples ok_headers_def)

theorem http_chunked_body_witness:
  "\<exists>r. parse_http_response (chunked_head @ header_end_mark @ encode_chunks [''ab'', ''c''] @ ''HTTP'') False = Inr (Some r) \<and>
     http_body (response r) = ''abc'' \<and> status (response r) = 200"
  using http_chunked_body [OF sample_heads(1,2,3), of "[''ab'', ''c'']" "''HTTP''" False]
  by (auto simp: ok_headers_def kMaxHttpBodyBytes_def)

lemma sample_length_response:
  "if 2 \<le> length received
   then \<exists>r. parse_http_response (length_head @ header_end_mark @ received) eof = Inr (Some r) \<and>
     http_body (response r) = take 2 received
   else parse_http_response (length_head @ header_end_mark @ received) False = Inr None"
proof -
  have "find_at header_end_mark (length_head @ header_end_mark @ received) = Some (length length_head)"
    using find_at_append [OF sample_heads(4), of received] by simp
  then show ?thesis using sample_heads(5,6)
    by (auto simp: parse_http_response_def body_of_def Let_def ok_headers_def kMaxHttpBodyBytes_def)
qed

theorem http_content_length_body_witness:
  "(\<exists>r. parse_http_response (length_head @ header_end_mark @ ''okHTTP'') False = Inr (Some r) \<and> http_body (response r) = ''ok'') \<and>
   parse_http_response (length_head @ header_end_mark @ ''o'') False = Inr None"
  using http_content_length_body [OF sample_heads(4,5,6), of 2 "''okHTTP''" False]
    http_content_length_body [OF sample_heads(4,5,6), of 2 "''o''" False]
  by (auto simp: ok_headers_def kMaxHttpBodyBytes_def)

theorem http_response_stable_witness:
  "\<exists>r. parse_http_response (length_head @ header_end_mark @ ''ok'') False = Inr (Some r) \<and>
     parse_http_response ((length_head @ header_end_mark @ ''ok'') @ ''HTTP'') True = Inr (Some r)"
proof -
  obtain r where r: "parse_http_response (length_head @ header_end_mark @ ''ok'') False = Inr (Some r)"
    using sample_length_response [of "''ok''" False] by auto
  from http_response_stable [OF this, of "''HTTP''" True] r show ?thesis by blast
qed

theorem http_response_at_close_witness:
  "\<exists>r. parse_http_response (length_head @ header_end_mark @ ''ok'') True = Inr (Some r) \<and>
     parse_http_response (length_head @ header_end_mark @ ''ok'') False = Inr (Some r)"
proof -
  let ?data = "length_head @ header_end_mark @ ''ok''"
  obtain r where r: "parse_http_response ?data True = Inr (Some r)"
    using sample_length_response [of "''ok''" True] by auto
  have "parse_http_response ?data False \<noteq> Inr None" using sample_length_response [of "''ok''" False] by auto
  with http_response_at_close [OF r] r show ?thesis by blast
qed

end
