(* ===== verification/World.thy ===== *)
theory World
  imports Byte_Stream
begin

text \<open>
  The environment of the client: sockets, clocks, the random generator, the signer and signals
  (OpenSSL, the kernel and the C++ runtime), none of which is code of the repository. A \<open>world\<close> is
  the sequence of answers the environment will give to the calls of the program, in the order of
  the calls, and the log of the calls made so far with their answers. A call takes the next answer; if there is none,
  or it is of another kind, the run is not described any further and the result is \<open>None\<close>. All
  theorems hold for every sequence of answers.

  A computation with effects is a function from the world to a result and the new world.
\<close>

datatype sock = HttpSock | WsSock

text \<open>
  The calls of the operating system and of OpenSSL that the sockets and the signer make. An address
  of \<open>getaddrinfo\<close> is opaque, descriptors are integers, a flag word is an integer.
\<close>

type_synonym addr = string

datatype syscall =
    Getaddrinfo string string
  | Socket addr
  | Fcntl_getfl int
  | Fcntl_setfl int int
  | Connect int addr
  | Poll_out int int
  | Getsockopt_error int
  | Setsockopt_nodelay int
  | Setsockopt_rcvtimeo int int
  | Close int
  | Send int string
  | Recv int nat
  | SSL_CTX_new
  | SSL_CTX_set_default_verify_paths
  | SSL_CTX_set_verify_peer
  | SSL_CTX_free
  | SSL_new
  | SSL_set_fd int
  | SSL_set_tlsext_host_name string
  | SSL_set1_host string
  | SSL_connect
  | SSL_write string int
  | SSL_read nat
  | SSL_get_error int
  | SSL_shutdown
  | SSL_free
  | ERR_error_string
  | BIO_new_file string
  | PEM_read_bio_PrivateKey
  | EVP_MD_CTX_new
  | EVP_DigestSignInit
  | EVP_PKEY_CTX_set_rsa_padding
  | EVP_PKEY_CTX_set_rsa_pss_saltlen
  | EVP_DigestSignUpdate string
  | EVP_DigestSignFinal_length
  | EVP_DigestSignFinal nat
  | Sigaction int int
  | Signal_ignore int

datatype call =
    CallConnect sock string string
  | CallSend sock string
  | CallReceive sock
  | CallNow
  | CallWallClock
  | CallPoll
  | CallSign string
  | CallRandom nat
  | CallRunning
  | CallSleep int
  | CallSys syscall

datatype answer =
    AnsConnect "string + unit"
  | AnsSend "string + nat"
  | AnsReceive "string + string"
  | AnsTime int
  | AnsPoll bool
  | AnsSign "string + string"
  | AnsRandom "bytes option"
  | AnsRunning bool
  | AnsDone
  | AnsAddrs "string + addr list"
  | AnsRet int int
  | AnsText string
  | AnsBuf int int string

record world =
  answers :: "answer list"
  trace :: "(call \<times> answer) list"

type_synonym 'a io = "world \<Rightarrow> ('a \<times> world) option"

definition io_return :: "'a \<Rightarrow> 'a io" where
  "io_return x w = Some (x, w)"

definition io_bind :: "'a io \<Rightarrow> ('a \<Rightarrow> 'b io) \<Rightarrow> 'b io" where
  "io_bind m f w = (case m w of None \<Rightarrow> None | Some (x, w') \<Rightarrow> f x w')"

text \<open>One call: the next answer, if \<open>accept\<close> takes it.\<close>

definition ask :: "call \<Rightarrow> (answer \<Rightarrow> 'a option) \<Rightarrow> 'a io" where
  "ask c accept w =
     (case answers w of
        [] \<Rightarrow> None
      | a # as \<Rightarrow> map_option (\<lambda>x. (x, \<lparr>answers = as, trace = trace w @ [(c, a)]\<rparr>)) (accept a))"

definition tls_connect :: "sock \<Rightarrow> string \<Rightarrow> string \<Rightarrow> (string + unit) io" where
  "tls_connect s host port = ask (CallConnect s host port) (\<lambda>a. case a of AnsConnect r \<Rightarrow> Some r | _ \<Rightarrow> None)"

definition tls_send :: "sock \<Rightarrow> string \<Rightarrow> (string + nat) io" where
  "tls_send s data = ask (CallSend s data) (\<lambda>a. case a of AnsSend r \<Rightarrow> Some r | _ \<Rightarrow> None)"

definition tls_receive :: "sock \<Rightarrow> (string + string) io" where
  "tls_receive s = ask (CallReceive s) (\<lambda>a. case a of AnsReceive r \<Rightarrow> Some r | _ \<Rightarrow> None)"

definition clock_now :: "int io" where
  "clock_now = ask CallNow (\<lambda>a. case a of AnsTime t \<Rightarrow> Some t | _ \<Rightarrow> None)"

definition wall_clock_ms :: "int io" where
  "wall_clock_ms = ask CallWallClock (\<lambda>a. case a of AnsTime t \<Rightarrow> Some t | _ \<Rightarrow> None)"

definition poll_readable :: "bool io" where
  "poll_readable = ask CallPoll (\<lambda>a. case a of AnsPoll b \<Rightarrow> Some b | _ \<Rightarrow> None)"

definition sign :: "string \<Rightarrow> (string + string) io" where
  "sign msg = ask (CallSign msg) (\<lambda>a. case a of AnsSign r \<Rightarrow> Some r | _ \<Rightarrow> None)"

definition rand_bytes :: "nat \<Rightarrow> bytes option io" where
  "rand_bytes n = ask (CallRandom n) (\<lambda>a. case a of AnsRandom r \<Rightarrow> Some r | _ \<Rightarrow> None)"

definition read_running :: "bool io" where
  "read_running = ask CallRunning (\<lambda>a. case a of AnsRunning b \<Rightarrow> Some b | _ \<Rightarrow> None)"

definition sleep_for :: "int \<Rightarrow> unit io" where
  "sleep_for secs = ask (CallSleep secs) (\<lambda>a. case a of AnsDone \<Rightarrow> Some () | _ \<Rightarrow> None)"

text \<open>
  An answer of a system call is a return value with what else the call reports (\<open>errno\<close>, or the
  value written through a pointer), a text, the addresses or the error text of \<open>getaddrinfo\<close>, or a return value
  with the contents of the buffer that the call filled. A pointer is 0 if it is null.
\<close>

definition sys_addrs :: "syscall \<Rightarrow> (string + addr list) io" where
  "sys_addrs c = ask (CallSys c) (\<lambda>a. case a of AnsAddrs r \<Rightarrow> Some r | _ \<Rightarrow> None)"

definition sys_ret :: "syscall \<Rightarrow> (int \<times> int) io" where
  "sys_ret c = ask (CallSys c) (\<lambda>a. case a of AnsRet r e \<Rightarrow> Some (r, e) | _ \<Rightarrow> None)"

definition sys_text :: "syscall \<Rightarrow> string io" where
  "sys_text c = ask (CallSys c) (\<lambda>a. case a of AnsText t \<Rightarrow> Some t | _ \<Rightarrow> None)"

definition sys_buf :: "syscall \<Rightarrow> (int \<times> int \<times> string) io" where
  "sys_buf c = ask (CallSys c) (\<lambda>a. case a of AnsBuf r e b \<Rightarrow> Some (r, e, b) | _ \<Rightarrow> None)"

text \<open>A pure computation that may have no result, because a signed integer overflows.\<close>

definition io_of :: "'a option \<Rightarrow> 'a io" where
  "io_of r w = map_option (\<lambda>x. (x, w)) r"

section \<open>Lemmas\<close>

lemma io_return_Some [simp]: "io_return x w = Some (y, w') \<longleftrightarrow> y = x \<and> w' = w"
  by (auto simp: io_return_def)

lemma io_bind_Some: "io_bind m f w = Some (y, w'') \<longleftrightarrow> (\<exists>x w'. m w = Some (x, w') \<and> f x w' = Some (y, w''))"
  by (auto simp: io_bind_def split: option.split)

lemma bind_case_sum_Some:
  "io_bind m (\<lambda>r. case r of Inl e \<Rightarrow> f e | Inr x \<Rightarrow> g x) w = Some (y, w') \<longleftrightarrow>
     (\<exists>e w1. m w = Some (Inl e, w1) \<and> f e w1 = Some (y, w')) \<or> (\<exists>x w1. m w = Some (Inr x, w1) \<and> g x w1 = Some (y, w'))"
  by (auto simp: io_bind_def split: option.split sum.split)

lemma ask_Some:
  "ask c accept w = Some (x, w') \<longleftrightarrow>
     (\<exists>a. answers w = a # answers w' \<and> accept a = Some x \<and> trace w' = trace w @ [(c, a)])"
  by (cases w') (auto simp: ask_def split: list.split)

lemmas calls = tls_connect_def tls_send_def tls_receive_def clock_now_def wall_clock_ms_def poll_readable_def
  sign_def rand_bytes_def read_running_def sleep_for_def sys_addrs_def sys_ret_def sys_text_def sys_buf_def

lemma accept_Some [simp]:
  "(case a of AnsConnect r \<Rightarrow> Some r | _ \<Rightarrow> None) = Some x1 \<longleftrightarrow> a = AnsConnect x1"
  "(case a of AnsSend r \<Rightarrow> Some r | _ \<Rightarrow> None) = Some x2 \<longleftrightarrow> a = AnsSend x2"
  "(case a of AnsReceive r \<Rightarrow> Some r | _ \<Rightarrow> None) = Some x3 \<longleftrightarrow> a = AnsReceive x3"
  "(case a of AnsTime r \<Rightarrow> Some r | _ \<Rightarrow> None) = Some x4 \<longleftrightarrow> a = AnsTime x4"
  "(case a of AnsPoll r \<Rightarrow> Some r | _ \<Rightarrow> None) = Some x5 \<longleftrightarrow> a = AnsPoll x5"
  "(case a of AnsSign r \<Rightarrow> Some r | _ \<Rightarrow> None) = Some x6 \<longleftrightarrow> a = AnsSign x6"
  "(case a of AnsRandom r \<Rightarrow> Some r | _ \<Rightarrow> None) = Some x7 \<longleftrightarrow> a = AnsRandom x7"
  "(case a of AnsRunning r \<Rightarrow> Some r | _ \<Rightarrow> None) = Some x8 \<longleftrightarrow> a = AnsRunning x8"
  "(case a of AnsDone \<Rightarrow> Some () | _ \<Rightarrow> None) = Some x9 \<longleftrightarrow> a = AnsDone"
  "(case a of AnsAddrs r \<Rightarrow> Some r | _ \<Rightarrow> None) = Some x10 \<longleftrightarrow> a = AnsAddrs x10"
  "(case a of AnsRet r e \<Rightarrow> Some (r, e) | _ \<Rightarrow> None) = Some x11 \<longleftrightarrow> a = AnsRet (fst x11) (snd x11)"
  "(case a of AnsText r \<Rightarrow> Some r | _ \<Rightarrow> None) = Some x12 \<longleftrightarrow> a = AnsText x12"
  "(case a of AnsBuf r e b \<Rightarrow> Some (r, e, b) | _ \<Rightarrow> None) = Some x13 \<longleftrightarrow> a = AnsBuf (fst x13) (fst (snd x13)) (snd (snd x13))"
  by (cases a; auto)+

lemma call_trace:
  "tls_connect s h p w = Some (r1, w') \<Longrightarrow> trace w' = trace w @ [(CallConnect s h p, AnsConnect r1)]"
  "tls_send s d w = Some (r2, w') \<Longrightarrow> trace w' = trace w @ [(CallSend s d, AnsSend r2)]"
  "tls_receive s w = Some (r3, w') \<Longrightarrow> trace w' = trace w @ [(CallReceive s, AnsReceive r3)]"
  "clock_now w = Some (r4, w') \<Longrightarrow> trace w' = trace w @ [(CallNow, AnsTime r4)]"
  "wall_clock_ms w = Some (r4, w') \<Longrightarrow> trace w' = trace w @ [(CallWallClock, AnsTime r4)]"
  "poll_readable w = Some (r5, w') \<Longrightarrow> trace w' = trace w @ [(CallPoll, AnsPoll r5)]"
  "sign m w = Some (r6, w') \<Longrightarrow> trace w' = trace w @ [(CallSign m, AnsSign r6)]"
  "rand_bytes n w = Some (r7, w') \<Longrightarrow> trace w' = trace w @ [(CallRandom n, AnsRandom r7)]"
  "read_running w = Some (r8, w') \<Longrightarrow> trace w' = trace w @ [(CallRunning, AnsRunning r8)]"
  "sleep_for n' w = Some (r9, w') \<Longrightarrow> trace w' = trace w @ [(CallSleep n', AnsDone)]"
  "sys_addrs c w = Some (r10, w') \<Longrightarrow> trace w' = trace w @ [(CallSys c, AnsAddrs r10)]"
  "sys_ret c w = Some (r11, w') \<Longrightarrow> trace w' = trace w @ [(CallSys c, AnsRet (fst r11) (snd r11))]"
  "sys_text c w = Some (r12, w') \<Longrightarrow> trace w' = trace w @ [(CallSys c, AnsText r12)]"
  "sys_buf c w = Some (r13, w') \<Longrightarrow> trace w' = trace w @ [(CallSys c, AnsBuf (fst r13) (fst (snd r13)) (snd (snd r13)))]"
  by (auto simp: calls ask_Some)

lemma receive_less: "tls_receive s w = Some (r, w') \<Longrightarrow> length (answers w') < length (answers w)"
  by (auto simp: calls ask_Some)

section \<open>Weakest preconditions\<close>

text \<open>
  \<open>io_wp m Q w\<close>: if \<open>m\<close> returns from \<open>w\<close>, then with a result and a world that satisfy \<open>Q\<close>. The rules
  in \<open>wp\<close> push it through a computation; a call of the environment may have any answer, and is
  recorded in the trace.
\<close>

definition io_wp :: "'a io \<Rightarrow> ('a \<Rightarrow> world \<Rightarrow> bool) \<Rightarrow> world \<Rightarrow> bool" where
  "io_wp m Q w = (case m w of None \<Rightarrow> True | Some (x, w') \<Rightarrow> Q x w')"

lemma io_wpI: "(\<And>x w'. m w = Some (x, w') \<Longrightarrow> Q x w') \<Longrightarrow> io_wp m Q w"
  by (simp add: io_wp_def split: option.split prod.split)

lemma io_wpD: "io_wp m Q w \<Longrightarrow> m w = Some (x, w') \<Longrightarrow> Q x w'"
  by (simp add: io_wp_def)

lemma io_wp_mono: "io_wp m Q w \<Longrightarrow> (\<And>x w'. Q x w' \<Longrightarrow> Q' x w') \<Longrightarrow> io_wp m Q' w"
  by (auto simp: io_wp_def split: option.splits)

lemma io_wp_conj: "io_wp m Q w \<Longrightarrow> io_wp m Q' w \<Longrightarrow> io_wp m (\<lambda>x w'. Q x w' \<and> Q' x w') w"
  by (auto simp: io_wp_def split: option.splits)

lemma wp_return [wp]: "io_wp (io_return x) Q w = Q x w"
  by (simp add: io_wp_def io_return_def)

lemma wp_bind [wp]: "io_wp (io_bind m f) Q w = io_wp m (\<lambda>x. io_wp (f x) Q) w"
  by (simp add: io_wp_def io_bind_def split: option.split)

lemma wp_if [wp]: "io_wp (if b then m else m') Q w = (if b then io_wp m Q w else io_wp m' Q w)"
  by simp

lemma wp_case_sum [wp]:
  "io_wp (case r of Inl e \<Rightarrow> f e | Inr x \<Rightarrow> g x) Q w = (case r of Inl e \<Rightarrow> io_wp (f e) Q w | Inr x \<Rightarrow> io_wp (g x) Q w)"
  by (simp split: sum.split)

lemma wp_case_option [wp]:
  "io_wp (case r of None \<Rightarrow> m | Some x \<Rightarrow> g x) Q w = (case r of None \<Rightarrow> io_wp m Q w | Some x \<Rightarrow> io_wp (g x) Q w)"
  by (simp split: option.split)

lemma wp_case_prod [wp]: "io_wp (case r of (x, y) \<Rightarrow> f x y) Q w = (case r of (x, y) \<Rightarrow> io_wp (f x y) Q w)"
  by (simp split: prod.split)

lemma wp_of [wp]: "io_wp (io_of r) Q w = (\<forall>x. r = Some x \<longrightarrow> Q x w)"
  by (cases r) (simp_all add: io_wp_def io_of_def)

lemma wp_calls [wp]:
  "(\<And>r w'. trace w' = trace w @ [(CallConnect s h p, AnsConnect r)] \<Longrightarrow> Q1 r w') \<Longrightarrow> io_wp (tls_connect s h p) Q1 w"
  "(\<And>r w'. trace w' = trace w @ [(CallSend s d, AnsSend r)] \<Longrightarrow> Q2 r w') \<Longrightarrow> io_wp (tls_send s d) Q2 w"
  "(\<And>r w'. trace w' = trace w @ [(CallReceive s, AnsReceive r)] \<Longrightarrow> Q3 r w') \<Longrightarrow> io_wp (tls_receive s) Q3 w"
  "(\<And>r w'. trace w' = trace w @ [(CallNow, AnsTime r)] \<Longrightarrow> Q4 r w') \<Longrightarrow> io_wp clock_now Q4 w"
  "(\<And>r w'. trace w' = trace w @ [(CallWallClock, AnsTime r)] \<Longrightarrow> Q4 r w') \<Longrightarrow> io_wp wall_clock_ms Q4 w"
  "(\<And>r w'. trace w' = trace w @ [(CallPoll, AnsPoll r)] \<Longrightarrow> Q5 r w') \<Longrightarrow> io_wp poll_readable Q5 w"
  "(\<And>r w'. trace w' = trace w @ [(CallSign m, AnsSign r)] \<Longrightarrow> Q6 r w') \<Longrightarrow> io_wp (sign m) Q6 w"
  "(\<And>r w'. trace w' = trace w @ [(CallRandom n, AnsRandom r)] \<Longrightarrow> Q7 r w') \<Longrightarrow> io_wp (rand_bytes n) Q7 w"
  "(\<And>r w'. trace w' = trace w @ [(CallRunning, AnsRunning r)] \<Longrightarrow> Q8 r w') \<Longrightarrow> io_wp read_running Q8 w"
  "(\<And>r w'. trace w' = trace w @ [(CallSleep secs, AnsDone)] \<Longrightarrow> Q9 r w') \<Longrightarrow> io_wp (sleep_for secs) Q9 w"
  "(\<And>r w'. trace w' = trace w @ [(CallSys c, AnsAddrs r)] \<Longrightarrow> Q10 r w') \<Longrightarrow> io_wp (sys_addrs c) Q10 w"
  "(\<And>r e w'. trace w' = trace w @ [(CallSys c, AnsRet r e)] \<Longrightarrow> Q11 (r, e) w') \<Longrightarrow> io_wp (sys_ret c) Q11 w"
  "(\<And>r w'. trace w' = trace w @ [(CallSys c, AnsText r)] \<Longrightarrow> Q12 r w') \<Longrightarrow> io_wp (sys_text c) Q12 w"
  "(\<And>r e b w'. trace w' = trace w @ [(CallSys c, AnsBuf r e b)] \<Longrightarrow> Q13 (r, e, b) w') \<Longrightarrow> io_wp (sys_buf c) Q13 w"
  by (rule io_wpI, drule call_trace, simp add: split_paired_all)+

section \<open>Which calls were made\<close>

text \<open>\<open>adds P w w'\<close>: from \<open>w\<close> to \<open>w'\<close> only calls that satisfy \<open>P\<close> were made.\<close>

definition adds :: "(call \<times> answer \<Rightarrow> bool) \<Rightarrow> world \<Rightarrow> world \<Rightarrow> bool" where
  "adds P w w' \<longleftrightarrow> (\<exists>es. trace w' = trace w @ es \<and> list_all P es)"

lemma adds_refl [simp]: "adds P w w"
  by (simp add: adds_def)

lemma adds_trans: "adds P w w' \<Longrightarrow> adds P w' w'' \<Longrightarrow> adds P w w''"
  by (auto simp: adds_def)

lemma adds_one: "trace w' = trace w @ [e] \<Longrightarrow> P e \<Longrightarrow> adds P w w'"
  by (auto simp: adds_def)

lemma adds_mono: "adds P w w' \<Longrightarrow> (\<And>e. P e \<Longrightarrow> Q e) \<Longrightarrow> adds Q w w'"
  by (auto simp: adds_def list_all_iff)

definition is_send :: "call \<times> answer \<Rightarrow> bool" where
  "is_send e = (case fst e of CallSend _ _ \<Rightarrow> True | _ \<Rightarrow> False)"

definition is_connect :: "call \<times> answer \<Rightarrow> bool" where
  "is_connect e = (case fst e of CallConnect _ _ _ \<Rightarrow> True | _ \<Rightarrow> False)"

definition quiet :: "call \<times> answer \<Rightarrow> bool" where
  "quiet e \<longleftrightarrow> \<not> is_send e \<and> \<not> is_connect e"

lemma quiet_simps [simp]:
  "quiet (CallReceive s, a)" "quiet (CallNow, a)" "quiet (CallPoll, a)" "quiet (CallSign m, a)"
  "quiet (CallWallClock, a)" "\<not> is_send (CallConnect s h p, a)" "is_send (CallSend s d, a)"
  "is_connect (CallConnect s h p, a)" "\<not> is_send (CallNow, a)"
  by (simp_all add: quiet_def is_send_def is_connect_def)

lemma quiet_no_send: "quiet e \<Longrightarrow> \<not> is_send e"
  by (simp add: quiet_def)

section \<open>Progress\<close>

text \<open>
  Every call takes one answer and logs it: what a computation takes off the tape is what it adds to the trace.
  So no computation puts answers back, and the loops of the program end.
\<close>

definition consumes :: "world \<Rightarrow> world \<Rightarrow> bool" where
  "consumes w w' \<longleftrightarrow> (\<exists>es. trace w' = trace w @ es \<and> answers w = map snd es @ answers w')"

lemma consumes_refl [simp]: "consumes w w"
  by (simp add: consumes_def)

lemma consumes_trans: "consumes w w1 \<Longrightarrow> consumes w1 w2 \<Longrightarrow> consumes w w2"
  by (auto simp: consumes_def)

definition shrinks :: "'a io \<Rightarrow> bool" where
  "shrinks m \<longleftrightarrow> (\<forall>w x w'. m w = Some (x, w') \<longrightarrow> consumes w w')"

lemma shrinks_consumes: "shrinks m \<Longrightarrow> m w = Some (x, w') \<Longrightarrow> consumes w w'"
  by (simp add: shrinks_def)

lemma shrinksD: "shrinks m \<Longrightarrow> m w = Some (x, w') \<Longrightarrow> length (answers w') \<le> length (answers w)"
  by (drule (1) shrinks_consumes) (auto simp: consumes_def)

lemma shrinks_return [shrink]: "shrinks (io_return x)"
  by (simp add: shrinks_def)

lemma shrinks_of [shrink]: "shrinks (io_of r)"
  by (auto simp: shrinks_def io_of_def)

lemma shrinks_bind [shrink]: "shrinks m \<Longrightarrow> (\<And>x. shrinks (f x)) \<Longrightarrow> shrinks (io_bind m f)"
  unfolding shrinks_def io_bind_Some by (blast intro: consumes_trans)

lemma shrinks_calls [shrink]:
  "shrinks (tls_connect s h p)" "shrinks (tls_send s d)" "shrinks (tls_receive s)" "shrinks clock_now"
  "shrinks wall_clock_ms" "shrinks poll_readable" "shrinks (sign m)" "shrinks (rand_bytes n)" "shrinks read_running"
  "shrinks (sleep_for secs)" "shrinks (sys_addrs c)" "shrinks (sys_ret c)" "shrinks (sys_text c)" "shrinks (sys_buf c)"
  by (auto simp: shrinks_def consumes_def calls ask_Some)

lemma shrinks_case_sum [shrink]: "(\<And>e. shrinks (f e)) \<Longrightarrow> (\<And>x. shrinks (g x)) \<Longrightarrow> shrinks (case r of Inl e \<Rightarrow> f e | Inr x \<Rightarrow> g x)"
  by (cases r) simp_all

lemma shrinks_case_option [shrink]: "shrinks m \<Longrightarrow> (\<And>x. shrinks (g x)) \<Longrightarrow> shrinks (case r of None \<Rightarrow> m | Some x \<Rightarrow> g x)"
  by (cases r) simp_all

lemma shrinks_case_prod [shrink]: "(\<And>x y. shrinks (f x y)) \<Longrightarrow> shrinks (case r of (x, y) \<Rightarrow> f x y)"
  by (cases r) simp

lemma shrinks_if [shrink]: "shrinks m \<Longrightarrow> shrinks m' \<Longrightarrow> shrinks (if b then m else m')"
  by simp

lemma running_less: "read_running w = Some (r, w') \<Longrightarrow> length (answers w') < length (answers w)"
  by (auto simp: calls ask_Some)

section \<open>What a socket delivers\<close>

text \<open>The receive answers at the front of the tape: the script of a reading loop that makes no other call.\<close>

fun deliveries :: "answer list \<Rightarrow> char script" where
  "deliveries (AnsReceive r # as) = r # deliveries as"
| "deliveries _ = []"

lemma receive_deliveries: "tls_receive s w = Some (r, w') \<Longrightarrow> deliveries (answers w) = r # deliveries (answers w')"
  by (auto simp: calls ask_Some)

lemma receive_blocked: "tls_receive s w = None \<Longrightarrow> deliveries (answers w) = []"
  by (cases "answers w" rule: deliveries.cases) (auto simp: calls ask_def)

section \<open>Sends in a trace\<close>

fun sends :: "(call \<times> answer) list \<Rightarrow> (string \<times> (string + nat)) list" where
  "sends [] = []"
| "sends (e # es) = (case e of (CallSend s d, AnsSend r) \<Rightarrow> (d, r) # sends es | _ \<Rightarrow> sends es)"

text \<open>After the first send that succeeds, nothing is sent and no connection is opened.\<close>

fun settled :: "(call \<times> answer) list \<Rightarrow> bool" where
  "settled [] = True"
| "settled (e # es) = (case e of (CallSend s d, AnsSend (Inr n)) \<Rightarrow> list_all quiet es | _ \<Rightarrow> settled es)"

definition sent_ok :: "call \<times> answer \<Rightarrow> bool" where
  "sent_ok e = (case e of (CallSend s d, AnsSend (Inr n)) \<Rightarrow> True | _ \<Rightarrow> False)"

lemma sends_append: "sends (es @ fs) = sends es @ sends fs"
  by (induction es) (auto split: prod.split call.split answer.split)

lemma settled_append: "list_all (\<lambda>e. \<not> sent_ok e) es \<Longrightarrow> settled (es @ fs) = settled fs"
  by (induction es) (auto simp: sent_ok_def split: prod.splits call.splits answer.splits sum.splits)

lemma quiet_not_sent: "quiet e \<Longrightarrow> \<not> sent_ok e"
  by (cases e) (auto simp: sent_ok_def quiet_def is_send_def split: call.splits)

lemma quiet_events [simp]:
  assumes "list_all quiet es"
  shows "sends es = []" "settled es" "settled (es @ fs) = settled fs"
proof -
  show "sends es = []"
    using assms by (induction es) (auto simp: quiet_def is_send_def split: prod.splits call.splits)
  have "list_all (\<lambda>e. \<not> sent_ok e) es" using assms quiet_not_sent by (auto simp: list_all_iff)
  then show "settled (es @ fs) = settled fs" for fs by (rule settled_append)
  from this [of "[]"] show "settled es" by simp
qed

end
