(* ===== verification/Kalshi_Auth.thy ===== *)
theory Kalshi_Auth
  imports World
begin

text \<open>
  \<open>src/protocol/kalshi_auth.cpp\<close>: credentials and request signing headers. The environment
  variables are a map; the RSA-PSS signature of OpenSSL is the call \<open>sign\<close> of \<open>World\<close>.
\<close>

record Credentials =
  key_id :: string
  private_key_path :: string

definition load_credentials_from_env :: "(string \<rightharpoonup> string) \<Rightarrow> string + Credentials" where
  "load_credentials_from_env getenv =
     (case getenv ''KALSHI_API_KEY_ID'' of
        None \<Rightarrow> Inl ''KALSHI_API_KEY_ID environment variable is not set''
      | Some k \<Rightarrow>
          if k = [] then Inl ''KALSHI_API_KEY_ID environment variable is not set''
          else
     (case getenv ''KALSHI_PRIVATE_KEY_PATH'' of
        None \<Rightarrow> Inl ''KALSHI_PRIVATE_KEY_PATH environment variable is not set''
      | Some p \<Rightarrow>
          if p = [] then Inl ''KALSHI_PRIVATE_KEY_PATH environment variable is not set''
          else Inr \<lparr>key_id = k, private_key_path = p\<rparr>))"

definition current_timestamp_ms :: "string io" where
  "current_timestamp_ms = io_bind wall_clock_ms (\<lambda>ms. io_return (show_int ms))"

definition access_headers :: "string \<Rightarrow> string \<Rightarrow> string \<Rightarrow> string" where
  "access_headers kid signature timestamp =
     ''KALSHI-ACCESS-KEY: '' @ kid @ [CR, LF] @
     ''KALSHI-ACCESS-SIGNATURE: '' @ signature @ [CR, LF] @
     ''KALSHI-ACCESS-TIMESTAMP: '' @ timestamp @ [CR, LF]"

definition auth_headers :: "string \<Rightarrow> string \<Rightarrow> string \<Rightarrow> (string + string) io" where
  "auth_headers kid method path =
     io_bind current_timestamp_ms (\<lambda>timestamp.
     io_bind (sign (timestamp @ method @ path)) (\<lambda>signature.
     io_return
       (case signature of
          Inl e \<Rightarrow> Inl (''Failed to sign request: '' @ e)
        | Inr s \<Rightarrow> Inr (access_headers kid s timestamp))))"

lemma shrinks_auth_headers [shrink]: "shrinks (auth_headers kid method path)"
  unfolding auth_headers_def current_timestamp_ms_def by (intro shrink)

lemma auth_headers_wp:
  "io_wp (auth_headers kid method path)
     (\<lambda>r w'. \<exists>ms signature.
        trace w' = trace w @ [(CallWallClock, AnsTime ms), (CallSign (show_int ms @ method @ path), AnsSign signature)] \<and>
        r = (case signature of
               Inl e \<Rightarrow> Inl (''Failed to sign request: '' @ e)
             | Inr s \<Rightarrow> Inr (access_headers kid s (show_int ms)))) w"
  unfolding auth_headers_def current_timestamp_ms_def wp_bind
  by (auto intro!: wp simp: wp)

lemma auth_headers_ok:
  "io_wp (auth_headers kid method path)
     (\<lambda>r w'. \<forall>h. r = Inr h \<longrightarrow> (\<exists>ms s.
        trace w' = trace w @ [(CallWallClock, AnsTime ms), (CallSign (show_int ms @ method @ path), AnsSign (Inr s))] \<and>
        h = access_headers kid s (show_int ms))) w"
proof (rule io_wp_mono [OF auth_headers_wp], clarify)
  fix w' :: world and ms signature h
  assume "trace w' = trace w @ [(CallWallClock, AnsTime ms), (CallSign (show_int ms @ method @ path), AnsSign signature)]"
    and "(case signature of Inl e \<Rightarrow> Inl (''Failed to sign request: '' @ e) | Inr s \<Rightarrow> Inr (access_headers kid s (show_int ms))) = Inr h"
  then show "\<exists>ms s. trace w' = trace w @
      [(CallWallClock, AnsTime ms), (CallSign (show_int ms @ method @ path), AnsSign (Inr s))] \<and>
      h = access_headers kid s (show_int ms)"
    by (cases signature) auto
qed



end
