(* ===== verification/Json_Lexer.thy ===== *)
theory Json_Lexer
  imports Prelude
begin

text \<open>
  \<open>include/json_lexer.hpp\<close> and \<open>src/encoding/json_lexer.cpp\<close>: the pull lexer. Its state is
  the input and the read position; \<open>next_token\<close> is \<open>JsonLexer::next\<close>. A token's text is the
  substring of the input its \<open>string_view\<close> spans.

  The loops over the position are recursive functions that stop because the position grows
  towards the end of the input, so they need no budget. \<open>OutOfFuel\<close> is never produced
  here: it is the value of the parser's loops when their budget runs out, which
  \<open>Json_Parser\<close> and \<open>Kalshi_Decoder\<close> show not to happen.
\<close>

section \<open>Definitions\<close>

datatype TokenType =
    LeftBrace | RightBrace | LeftBracket | RightBracket | Colon | Comma
  | String_tok | Number_tok | True_tok | False_tok | Null_tok | End

datatype json_error = JsonError (what: string) (offset: nat) | OutOfFuel

fun message :: "json_error \<Rightarrow> string" where
  "message (JsonError w pos) = w @ '' at offset '' @ show_nat pos"
| "message OutOfFuel = ''out of fuel''"

record Token =
  tok_type :: TokenType
  tok_text :: string
  has_escapes :: bool

record JsonLexer =
  lx_input :: string
  lx_pos :: nat

definition JsonLexer_init :: "string \<Rightarrow> JsonLexer" where
  "JsonLexer_init text = \<lparr>lx_input = text, lx_pos = 0\<rparr>"

definition substr :: "string \<Rightarrow> nat \<Rightarrow> nat \<Rightarrow> string" where
  "substr s start n = take n (drop start s)"

definition is_space :: "char \<Rightarrow> bool" where
  "is_space c \<longleftrightarrow> c = CHR '' '' \<or> c = LF \<or> c = CR \<or> c = TAB"

function skip_ws :: "string \<Rightarrow> nat \<Rightarrow> nat" where
  "skip_ws s p = (if p < length s \<and> is_space (s ! p) then skip_ws s (p + 1) else p)"
  by pat_completeness auto
termination
  by (relation "measure (\<lambda>(s, p). length s - p)") auto

declare skip_ws.simps [simp del]

definition plain_token :: "TokenType \<Rightarrow> string \<Rightarrow> Token" where
  "plain_token ty text = \<lparr>tok_type = ty, tok_text = text, has_escapes = False\<rparr>"

definition simple_escape :: "char \<Rightarrow> bool" where
  "simple_escape c \<longleftrightarrow> c \<in> {DQUOTE, BACKSLASH, CHR ''/'', CHR ''b'', CHR ''f'', CHR ''n'', CHR ''r'', CHR ''t''}"

text \<open>The loop over the four hex digits of a \<open>\u\<close> escape; it returns the position of the last.\<close>

fun hex_loop :: "string \<Rightarrow> nat \<Rightarrow> nat \<Rightarrow> json_error + nat" where
  "hex_loop s p 0 = Inr p"
| "hex_loop s p (Suc n) =
     (if p + 1 \<ge> length s \<or> \<not> is_hex (s ! (p + 1))
      then Inl (JsonError (''Invalid '' @ [BACKSLASH] @ ''u escape in string'') (p + 1))
      else hex_loop s (p + 1) n)"

lemma hex_loop_Inr: "hex_loop s p n = Inr q \<Longrightarrow> q = p + n"
  by (induction s p n rule: hex_loop.induct) (auto split: if_splits)

function string_loop :: "string \<Rightarrow> nat \<Rightarrow> nat \<Rightarrow> bool \<Rightarrow> json_error + (Token \<times> nat)" where
  "string_loop s start p esc =
     (if p < length s then
        (if s ! p = DQUOTE then
           Inr (\<lparr>tok_type = String_tok, tok_text = substr s start (p - start), has_escapes = esc\<rparr>, p + 1)
         else if code (s ! p) < 32 then
           Inl (JsonError ''Unescaped control character in string'' p)
         else if s ! p = BACKSLASH then
           (if p + 1 \<ge> length s then Inl (JsonError ''Unterminated string'' (start - 1))
            else if simple_escape (s ! (p + 1)) then string_loop s start (p + 2) True
            else if s ! (p + 1) = CHR ''u'' then
              (case hex_loop s (p + 1) 4 of
                 Inl e \<Rightarrow> Inl e
               | Inr q \<Rightarrow> string_loop s start (q + 1) True)
            else Inl (JsonError ''Invalid escape in string'' (p + 1)))
         else string_loop s start (p + 1) esc)
      else Inl (JsonError ''Unterminated string'' (start - 1)))"
  by pat_completeness auto
termination
  by (relation "measure (\<lambda>(s, start, p, esc). length s - p)") (auto dest: hex_loop_Inr)

declare string_loop.simps [simp del]

definition lex_string :: "JsonLexer \<Rightarrow> json_error + (Token \<times> JsonLexer)" where
  "lex_string lx =
     (let start = lx_pos lx + 1 in
      case string_loop (lx_input lx) start start False of
        Inl e \<Rightarrow> Inl e
      | Inr (token, p) \<Rightarrow> Inr (token, lx\<lparr>lx_pos := p\<rparr>))"

definition peek :: "string \<Rightarrow> nat \<Rightarrow> char" where
  "peek s p = (if p < length s then s ! p else CHR 0x00)"

function digits_end :: "string \<Rightarrow> nat \<Rightarrow> nat" where
  "digits_end s p = (if p < length s \<and> is_digit (peek s p) then digits_end s (p + 1) else p)"
  by pat_completeness auto
termination
  by (relation "measure (\<lambda>(s, p). length s - p)") auto

declare digits_end.simps [simp del]

text \<open>The three parts of \<open>lex_number\<close>, each returning the position after it.\<close>

definition lex_int :: "string \<Rightarrow> nat \<Rightarrow> nat \<Rightarrow> json_error + nat" where
  "lex_int s start p =
     (let p1 = (if peek s p = CHR ''-'' then p + 1 else p) in
      if peek s p1 = CHR ''0'' then Inr (p1 + 1)
      else if digits_end s p1 > p1 then Inr (digits_end s p1)
      else Inl (JsonError ''Invalid number'' start))"

definition lex_frac :: "string \<Rightarrow> nat \<Rightarrow> nat \<Rightarrow> json_error + nat" where
  "lex_frac s start p =
     (if peek s p = CHR ''.'' then
        (if digits_end s (p + 1) > p + 1 then Inr (digits_end s (p + 1))
         else Inl (JsonError (''Invalid number: no digits after '' @ [CHR 0x27] @ ''.'' @ [CHR 0x27]) start))
      else Inr p)"

definition lex_exp :: "string \<Rightarrow> nat \<Rightarrow> nat \<Rightarrow> json_error + nat" where
  "lex_exp s start p =
     (if peek s p = CHR ''e'' \<or> peek s p = CHR ''E'' then
        (let p1 = p + 1;
             p2 = (if peek s p1 = CHR ''+'' \<or> peek s p1 = CHR ''-'' then p1 + 1 else p1)
         in if digits_end s p2 > p2 then Inr (digits_end s p2)
            else Inl (JsonError ''Invalid number: bad exponent'' start))
      else Inr p)"

definition lex_number :: "JsonLexer \<Rightarrow> json_error + (Token \<times> JsonLexer)" where
  "lex_number lx =
     (let s = lx_input lx; start = lx_pos lx in
      case lex_int s start start of
        Inl e \<Rightarrow> Inl e
      | Inr p1 \<Rightarrow>
         (case lex_frac s start p1 of
            Inl e \<Rightarrow> Inl e
          | Inr p2 \<Rightarrow>
             (case lex_exp s start p2 of
                Inl e \<Rightarrow> Inl e
              | Inr p3 \<Rightarrow>
                  Inr (plain_token Number_tok (substr s start (p3 - start)), lx\<lparr>lx_pos := p3\<rparr>))))"

text \<open>The punctuation cases of the switch in \<open>next\<close>, and its table of literal words.\<close>

definition punctuation :: "char \<Rightarrow> TokenType option" where
  "punctuation c =
     (if c = CHR 0x7B then Some LeftBrace
      else if c = CHR 0x7D then Some RightBrace
      else if c = CHR ''['' then Some LeftBracket
      else if c = CHR '']'' then Some RightBracket
      else if c = CHR '':'' then Some Colon
      else if c = CHR '','' then Some Comma
      else None)"

definition literal_words :: "(string \<times> TokenType) list" where
  "literal_words = [(''true'', True_tok), (''false'', False_tok), (''null'', Null_tok)]"

definition next_token :: "JsonLexer \<Rightarrow> json_error + (Token \<times> JsonLexer)" where
  "next_token lx0 =
     (let s = lx_input lx0;
          p = skip_ws s (lx_pos lx0);
          lx = lx0\<lparr>lx_pos := p\<rparr> in
      if p \<ge> length s then Inr (plain_token End [], lx)
      else
        let c = s ! p in
        case punctuation c of
          Some ty \<Rightarrow> Inr (plain_token ty (substr s p 1), lx\<lparr>lx_pos := p + 1\<rparr>)
        | None \<Rightarrow>
           (if c = DQUOTE then lex_string lx
            else
              case find (\<lambda>(word, ty). starts_with (drop p s) word) literal_words of
                Some (word, ty) \<Rightarrow> Inr (plain_token ty word, lx\<lparr>lx_pos := p + length word\<rparr>)
              | None \<Rightarrow>
                 (if c = CHR ''-'' \<or> is_digit c then lex_number lx
                  else Inl (JsonError ''Unexpected character'' p))))"

section \<open>Progress\<close>

lemma skip_ws_ge [progress]: "p \<le> skip_ws s p"
proof (induction s p rule: skip_ws.induct)
  case (1 s p)
  then show ?case by (cases "p < length s \<and> is_space (s ! p)") (auto simp: skip_ws.simps [of s p])
qed

lemma skip_ws_le: "p \<le> length s \<Longrightarrow> skip_ws s p \<le> length s"
proof (induction s p rule: skip_ws.induct)
  case (1 s p)
  then show ?case by (cases "p < length s \<and> is_space (s ! p)") (auto simp: skip_ws.simps [of s p])
qed

lemma digits_end_ge [progress]: "p \<le> digits_end s p"
proof (induction s p rule: digits_end.induct)
  case (1 s p)
  then show ?case
    by (cases "p < length s \<and> is_digit (peek s p)") (auto simp: digits_end.simps [of s p])
qed

lemma digits_end_le: "p \<le> length s \<Longrightarrow> digits_end s p \<le> length s"
proof (induction s p rule: digits_end.induct)
  case (1 s p)
  then show ?case
    by (cases "p < length s \<and> is_digit (peek s p)") (auto simp: digits_end.simps [of s p])
qed

lemma peek_NUL: "peek s p \<noteq> CHR 0x00 \<Longrightarrow> p < length s"
  by (simp add: peek_def split: if_splits)

lemma peek_lt: "peek s p = c \<Longrightarrow> c \<noteq> CHR 0x00 \<Longrightarrow> p < length s"
  using peek_NUL by blast

lemma string_loop_pos:
  "string_loop s start p esc = Inr (t, q) \<Longrightarrow>
     p < q \<and> q \<le> length s \<and> s ! (q - 1) = DQUOTE \<and> tok_type t = String_tok \<and>
     tok_text t = substr s start (q - 1 - start)"
proof (induction s start p esc rule: string_loop.induct)
  case (1 s start p esc)
  let ?c = "s ! p"
  note unf = string_loop.simps [of s start p esc]
  consider (stop) "\<not> p < length s" | (quote) "p < length s" "?c = DQUOTE"
    | (ctrl) "p < length s" "?c \<noteq> DQUOTE" "code ?c < 32"
    | (esc) "p < length s" "?c \<noteq> DQUOTE" "\<not> code ?c < 32" "?c = BACKSLASH"
    | (plain) "p < length s" "?c \<noteq> DQUOTE" "\<not> code ?c < 32" "?c \<noteq> BACKSLASH" by blast
  then show ?case
  proof cases
    case esc
    with "1.prems" have n1: "\<not> p + 1 \<ge> length s" by (auto simp: unf)
    consider "simple_escape (s ! (p + 1))" | "\<not> simple_escape (s ! (p + 1))" "s ! (p + 1) = CHR ''u''"
      | "\<not> simple_escape (s ! (p + 1))" "s ! (p + 1) \<noteq> CHR ''u''" by blast
    then show ?thesis
    proof cases
      case 1
      with esc n1 "1.prems" "1.IH"(1) show ?thesis by (simp add: unf)
    next
      case 2
      with esc n1 "1.prems" obtain x where x: "hex_loop s (p + 1) 4 = Inr x"
        and l: "string_loop s start (x + 1) True = Inr (t, q)"
        by (auto simp: unf split: sum.splits)
      from "1.IH"(2) [OF esc n1 2 x l] hex_loop_Inr [OF x] show ?thesis by simp
    next
      case 3
      with esc n1 "1.prems" show ?thesis by (simp add: unf)
    qed
  qed (use "1.prems" "1.IH"(3) in \<open>auto simp: unf\<close>)
qed

lemma lex_string_progress:
  "lex_string lx = Inr (t, lx') \<Longrightarrow>
     lx_input lx' = lx_input lx \<and> lx_pos lx < lx_pos lx' \<and> lx_pos lx' \<le> length (lx_input lx) \<and>
     tok_type t = String_tok"
  by (auto simp: lex_string_def Let_def split: sum.splits prod.splits dest: string_loop_pos)

lemma lex_int_progress: "lex_int s start p = Inr q \<Longrightarrow> p < q \<and> q \<le> length s"
proof -
  assume a: "lex_int s start p = Inr q"
  define p1 where "p1 = (if peek s p = CHR ''-'' then p + 1 else p)"
  have p1: "p \<le> p1" by (simp add: p1_def)
  show ?thesis
  proof (cases "peek s p1 = CHR ''0''")
    case True
    then have "p1 < length s" by (rule peek_lt) simp
    with a True p1 show ?thesis by (simp add: lex_int_def Let_def p1_def [symmetric])
  next
    case False
    with a have q: "q = digits_end s p1" "digits_end s p1 > p1"
      by (simp_all add: lex_int_def Let_def p1_def [symmetric] split: if_splits)
    then have "p1 < length s" by (subst (asm) (2) digits_end.simps) (auto split: if_splits)
    with q p1 digits_end_le [of p1 s] show ?thesis by simp
  qed
qed

lemma digits_end_gt: "p < digits_end s p \<Longrightarrow> digits_end s p \<le> length s"
proof -
  assume "p < digits_end s p"
  then have "p \<le> length s" by (rule contrapos_pp) (simp add: digits_end.simps [of s p])
  then show ?thesis by (rule digits_end_le)
qed

lemma lex_frac_progress: "lex_frac s start p = Inr q \<Longrightarrow> p \<le> length s \<Longrightarrow> p \<le> q \<and> q \<le> length s"
  using digits_end_gt by (auto simp: lex_frac_def split: if_splits)

lemma lex_exp_progress: "lex_exp s start p = Inr q \<Longrightarrow> p \<le> length s \<Longrightarrow> p \<le> q \<and> q \<le> length s"
  using digits_end_gt [of "p + 1" s] digits_end_gt [of "p + 2" s]
  by (auto simp: lex_exp_def Let_def split: if_splits)

lemma lex_number_progress:
  "lex_number lx = Inr (t, lx') \<Longrightarrow>
     lx_input lx' = lx_input lx \<and> lx_pos lx < lx_pos lx' \<and> lx_pos lx' \<le> length (lx_input lx) \<and>
     tok_type t = Number_tok \<and> \<not> has_escapes t"
  unfolding lex_number_def Let_def
  by (auto simp: plain_token_def split: sum.splits)
    (fastforce dest!: lex_int_progress lex_frac_progress lex_exp_progress)+

definition lx_ok :: "JsonLexer \<Rightarrow> bool" where
  "lx_ok lx \<longleftrightarrow> lx_pos lx \<le> length (lx_input lx)"

lemma starts_with_append [simp]: "starts_with (w @ r) w"
  by (simp add: starts_with_def)

lemma starts_with_length: "starts_with (drop p s) w \<Longrightarrow> w \<noteq> [] \<Longrightarrow> p + length w \<le> length s"
proof -
  assume "starts_with (drop p s) w" "w \<noteq> []"
  then have "drop p s = w @ drop (length w) (drop p s)"
    by (metis append_take_drop_id starts_with_def)
  then show ?thesis using \<open>w \<noteq> []\<close> by (rule drop_eq_append_le)
qed

lemma punctuation_type: "punctuation c = Some ty \<Longrightarrow> ty \<noteq> End \<and> ty \<noteq> String_tok"
  by (auto simp: punctuation_def split: if_splits)

lemma literal_words_SomeD:
  assumes "find (\<lambda>(word, ty). starts_with r word) literal_words = Some (w, ty)"
  shows "starts_with r w" "w \<noteq> []" "ty \<noteq> End" "ty \<noteq> String_tok"
  using assms by (auto simp: literal_words_def split: if_splits)

text \<open>The ways \<open>next_token\<close> returns a token, each with the position it leaves.\<close>

lemma next_token_cases:
  assumes "next_token lx = Inr (t, lx')"
  defines "p \<equiv> skip_ws (lx_input lx) (lx_pos lx)" and "s \<equiv> lx_input lx"
  obtains (at_end) "length s \<le> p" "t = plain_token End []" "lx' = lx\<lparr>lx_pos := p\<rparr>"
  | (single) ty where "p < length s" "punctuation (s ! p) = Some ty"
      "t = plain_token ty (substr s p 1)" "lx' = lx\<lparr>lx_pos := p + 1\<rparr>"
  | (str) "p < length s" "s ! p = DQUOTE" "lex_string (lx\<lparr>lx_pos := p\<rparr>) = Inr (t, lx')"
  | (word) ty w where "p < length s"
      "find (\<lambda>(word, ty). starts_with (drop p s) word) literal_words = Some (w, ty)"
      "t = plain_token ty w" "lx' = lx\<lparr>lx_pos := p + length w\<rparr>"
  | (num) "p < length s" "s ! p = CHR ''-'' \<or> is_digit (s ! p)" "lex_number (lx\<lparr>lx_pos := p\<rparr>) = Inr (t, lx')"
proof (cases "length s \<le> p")
  case True
  with assms show ?thesis by (intro at_end) (simp_all add: next_token_def Let_def)
next
  case False
  then have lt: "p < length s" by simp
  note n = assms(1) [unfolded next_token_def Let_def, folded p_def s_def]
  show ?thesis
  proof (cases "punctuation (s ! p)")
    case (Some ty)
    with n False single [OF lt Some] show ?thesis by simp
  next
    case None
    show ?thesis
    proof (cases "s ! p = DQUOTE")
      case True
      with n False None str [OF lt True] show ?thesis by simp
    next
      case noq: False
      show ?thesis
      proof (cases "find (\<lambda>(word, ty). starts_with (drop p s) word) literal_words")
        case (Some wt)
        obtain w ty where "wt = (w, ty)" by (cases wt)
        with n False None noq Some word [OF lt, of w ty] show ?thesis by simp
      next
        case none: None
        with n False None noq num [OF lt] show ?thesis by (simp split: if_splits)
      qed
    qed
  qed
qed

lemma next_token_progress:
  assumes "next_token lx = Inr (t, lx')"
  shows "lx_input lx' = lx_input lx" and "lx_pos lx \<le> lx_pos lx'"
    and "tok_type t \<noteq> End \<Longrightarrow> lx_pos lx < lx_pos lx'"
    and "lx_ok lx \<Longrightarrow> lx_ok lx'"
    and "has_escapes t \<Longrightarrow> tok_type t = String_tok"
proof -
  let ?s = "lx_input lx"
  let ?p = "skip_ws ?s (lx_pos lx)"
  have ge: "lx_pos lx \<le> ?p" by (rule skip_ws_ge)
  have "lx_input lx' = lx_input lx \<and> lx_pos lx \<le> lx_pos lx' \<and>
    (tok_type t \<noteq> End \<longrightarrow> lx_pos lx < lx_pos lx') \<and> (lx_ok lx \<longrightarrow> lx_ok lx') \<and>
    (has_escapes t \<longrightarrow> tok_type t = String_tok)"
    using assms
  proof (cases rule: next_token_cases)
    case at_end
    with ge skip_ws_le [of "lx_pos lx" ?s] show ?thesis by (simp add: plain_token_def lx_ok_def)
  next
    case (single ty)
    with ge punctuation_type show ?thesis by (simp add: plain_token_def lx_ok_def)
  next
    case str
    with ge lex_string_progress [OF str(3)] show ?thesis by (simp add: lx_ok_def)
  next
    case (word ty w)
    note w = literal_words_SomeD [OF word(2)]
    with starts_with_length have "?p + length w \<le> length ?s" by blast
    moreover have "lx_pos lx < ?p + length w" using ge w(2) by (cases w) simp_all
    ultimately show ?thesis using word w ge by (simp add: plain_token_def lx_ok_def)
  next
    case num
    with ge lex_number_progress [OF num(3)] show ?thesis by (simp add: lx_ok_def)
  qed
  then show "lx_input lx' = lx_input lx" "lx_pos lx \<le> lx_pos lx'"
    "tok_type t \<noteq> End \<Longrightarrow> lx_pos lx < lx_pos lx'" "lx_ok lx \<Longrightarrow> lx_ok lx'"
    "has_escapes t \<Longrightarrow> tok_type t = String_tok" by auto
qed

declare next_token_progress(2) [progress] next_token_progress(3) [progress]

lemma hex_loop_no_fuel: "hex_loop s p n \<noteq> Inl OutOfFuel"
  by (induction s p n rule: hex_loop.induct) auto

lemma string_loop_no_fuel: "string_loop s start p esc \<noteq> Inl OutOfFuel"
  by (induction s start p esc rule: string_loop.induct)
    (subst string_loop.simps, use hex_loop_no_fuel in \<open>auto split: sum.splits\<close>)

lemma lex_string_no_fuel: "lex_string lx \<noteq> Inl OutOfFuel"
  using string_loop_no_fuel by (auto simp: lex_string_def Let_def split: sum.splits)

lemma lex_number_no_fuel: "lex_number lx \<noteq> Inl OutOfFuel"
proof -
  have "lex_int s a p \<noteq> Inl OutOfFuel" "lex_frac s a p \<noteq> Inl OutOfFuel" "lex_exp s a p \<noteq> Inl OutOfFuel" for s a p
    by (simp_all add: lex_int_def lex_frac_def lex_exp_def Let_def)
  then show ?thesis by (auto simp: lex_number_def Let_def split: sum.splits)
qed

lemma next_token_no_fuel: "next_token lx \<noteq> Inl OutOfFuel"
  using lex_string_no_fuel lex_number_no_fuel
  by (simp add: next_token_def Let_def split: option.split prod.split)

end
