(* ===== verification/Json_Parser.thy ===== *)
theory Json_Parser
  imports Json_Lexer
begin

text \<open>
  \<open>include/json_parser.hpp\<close> and \<open>src/encoding/json_parser.cpp\<close>: the recursive descent parser
  over the pull lexer. A \<open>JsonObject\<close> (\<open>std::flat_map<std::string, JsonValue>\<close>) is an
  association list in the order of its keys; \<open>emplace\<close> inserts a new key at its place and
  leaves an existing one alone. Strings compare byte by byte, as \<open>std::string\<close> does.

  The mutual recursion \<open>parse_value\<close> / \<open>parse_object\<close> / \<open>parse_array\<close> is written with the
  value parser as an argument of the two container parsers. \<open>parse_value\<close> recurses on the
  nesting levels left, and each \<open>while (true)\<close> loop carries a budget (\<open>loop_budget\<close>) of one
  iteration per input byte and one more; running out of either is the error \<open>OutOfFuel\<close>, and
  \<open>parse_no_fuel\<close> shows that \<open>parse\<close> never returns it.
\<close>

unbundle bit_operations_syntax

section \<open>Definitions\<close>

datatype JsonValue =
    JNull
  | JBool bool
  | JString string
  | JArray "JsonValue list"
  | JObject "(string \<times> JsonValue) list"

type_synonym JsonArray = "JsonValue list"
type_synonym JsonObject = "(string \<times> JsonValue) list"
type_synonym 'a parse_result = "json_error + ('a \<times> JsonLexer)"
type_synonym value_parser = "Token \<Rightarrow> JsonLexer \<Rightarrow> JsonValue parse_result"

fun emplace :: "string \<Rightarrow> 'v \<Rightarrow> (string \<times> 'v) list \<Rightarrow> (string \<times> 'v) list" where
  "emplace k v [] = [(k, v)]"
| "emplace k v ((a, b) # ps) =
     (if k < a then (k, v) # (a, b) # ps
      else if k = a then (a, b) # ps
      else (a, b) # emplace k v ps)"

definition kMaxJsonDepth :: nat where
  "kMaxJsonDepth = 64"

definition hex4 :: "string \<Rightarrow> nat" where
  "hex4 s = foldl (\<lambda>v c. push_bit 4 v OR hex_val c) 0 (take 4 s)"

definition append_utf8 :: "string \<Rightarrow> nat \<Rightarrow> string" where
  "append_utf8 out cp =
     (if cp < 0x80 then out @ [char_of cp]
      else if cp < 0x800 then
        out @ [char_of (0xC0 OR drop_bit 6 cp), char_of (0x80 OR (cp AND 0x3F))]
      else if cp < 0x10000 then
        out @ [char_of (0xE0 OR drop_bit 12 cp), char_of (0x80 OR (drop_bit 6 cp AND 0x3F)),
               char_of (0x80 OR (cp AND 0x3F))]
      else
        out @ [char_of (0xF0 OR drop_bit 18 cp), char_of (0x80 OR (drop_bit 12 cp AND 0x3F)),
               char_of (0x80 OR (drop_bit 6 cp AND 0x3F)), char_of (0x80 OR (cp AND 0x3F))])"

text \<open>The one-character escapes of \<open>decode_json_string\<close>.\<close>

definition unescape :: "char \<Rightarrow> char option" where
  "unescape c =
     (if c = DQUOTE then Some DQUOTE
      else if c = BACKSLASH then Some BACKSLASH
      else if c = CHR ''/'' then Some (CHR ''/'')
      else if c = CHR ''b'' then Some (CHR 0x08)
      else if c = CHR ''f'' then Some (CHR 0x0C)
      else if c = CHR ''n'' then Some LF
      else if c = CHR ''r'' then Some CR
      else if c = CHR ''t'' then Some TAB
      else None)"

text \<open>
  The loop of \<open>decode_json_string\<close> over the unread rest of \<open>raw\<close>; \<open>r\<close> is what follows the
  backslash and its letter, \<open>r4\<close> what follows the four hex digits.
\<close>

function decode_loop :: "string \<Rightarrow> string \<Rightarrow> string + string" where
  "decode_loop [] out = Inr out"
| "decode_loop (c # raw) out =
     (if c \<noteq> BACKSLASH then decode_loop raw (out @ [c])
      else
        case raw of
          [] \<Rightarrow> Inl ''Dangling backslash in string''
        | e # r \<Rightarrow>
           (case unescape e of
              Some d \<Rightarrow> decode_loop r (out @ [d])
            | None \<Rightarrow>
               (if e \<noteq> CHR ''u'' then Inl ''Invalid escape in string''
                else if length r < 4 then Inl (''Truncated '' @ [BACKSLASH] @ ''u escape'')
                else
                  let cp = hex4 r; r4 = drop 4 r in
                  if 0xD800 \<le> cp \<and> cp \<le> 0xDBFF then
                    (if length r4 < 6 \<or> r4 ! 0 \<noteq> BACKSLASH \<or> r4 ! 1 \<noteq> CHR ''u''
                     then Inl ''Unpaired UTF-16 surrogate in string''
                     else
                       let low = hex4 (drop 2 r4) in
                       if low < 0xDC00 \<or> low > 0xDFFF
                       then Inl ''Invalid UTF-16 surrogate pair in string''
                       else decode_loop (drop 6 r4)
                              (append_utf8 out (0x10000 + push_bit 10 (cp - 0xD800) + (low - 0xDC00))))
                  else if 0xDC00 \<le> cp \<and> cp \<le> 0xDFFF
                  then Inl ''Unpaired UTF-16 surrogate in string''
                  else decode_loop r4 (append_utf8 out cp))))"
  by pat_completeness auto
termination
  by (relation "measure (\<lambda>(raw, out). length raw)") auto

declare decode_loop.simps(2) [simp del]

definition decode_json_string :: "string \<Rightarrow> string + string" where
  "decode_json_string raw = decode_loop raw []"

definition fail :: "string \<Rightarrow> JsonLexer \<Rightarrow> json_error + 'a" where
  "fail w lx = Inl (JsonError w (lx_pos lx))"

definition string_value :: "Token \<Rightarrow> JsonLexer \<Rightarrow> json_error + string" where
  "string_value token lx =
     (if \<not> has_escapes token then Inr (tok_text token)
      else case decode_json_string (tok_text token) of
             Inl _ \<Rightarrow> fail ''Invalid escape sequence in string'' lx
           | Inr s \<Rightarrow> Inr s)"

text \<open>The budget of a loop that reads at least one byte per iteration.\<close>

definition loop_budget :: "JsonLexer \<Rightarrow> nat" where
  "loop_budget lx = Suc (length (lx_input lx))"

text \<open>
  The body of \<open>parse_object\<close>'s loop from the key token on; \<open>pv\<close> is \<open>parse_value\<close> at the
  object's depth.
\<close>

fun object_loop ::
  "nat \<Rightarrow> value_parser \<Rightarrow> Token \<Rightarrow> JsonObject \<Rightarrow> JsonLexer \<Rightarrow> JsonObject parse_result" where
  "object_loop 0 pv token object lx = Inl OutOfFuel"
| "object_loop (Suc fuel) pv token object lx =
     (if tok_type token \<noteq> String_tok then fail ''Expected string key in object'' lx
      else
        case string_value token lx of
          Inl e \<Rightarrow> Inl e
        | Inr key \<Rightarrow>
       (case next_token lx of
          Inl e \<Rightarrow> Inl e
        | Inr (colon, lx1) \<Rightarrow>
            if tok_type colon \<noteq> Colon
            then fail (''Expected '' @ [CHR 0x27] @ '':'' @ [CHR 0x27] @ '' after object key'') lx1
            else
       (case next_token lx1 of
          Inl e \<Rightarrow> Inl e
        | Inr (value_token, lx2) \<Rightarrow>
       (case pv value_token lx2 of
          Inl e \<Rightarrow> Inl e
        | Inr (value, lx3) \<Rightarrow>
            let object' = emplace key value object in
       (case next_token lx3 of
          Inl e \<Rightarrow> Inl e
        | Inr (sep, lx4) \<Rightarrow>
            if tok_type sep = RightBrace then Inr (object', lx4)
            else if tok_type sep \<noteq> Comma
            then fail (''Expected '' @ [CHR 0x27] @ '','' @ [CHR 0x27] @ '' or '' @
                   [CHR 0x27, CHR 0x7D, CHR 0x27] @ '' after object value'') lx4
            else
       (case next_token lx4 of
          Inl e \<Rightarrow> Inl e
        | Inr (token', lx5) \<Rightarrow> object_loop fuel pv token' object' lx5))))))"

definition parse_object :: "value_parser \<Rightarrow> JsonLexer \<Rightarrow> JsonObject parse_result" where
  "parse_object pv lx =
     (case next_token lx of
        Inl e \<Rightarrow> Inl e
      | Inr (token, lx1) \<Rightarrow>
          if tok_type token = RightBrace then Inr ([], lx1)
          else object_loop (loop_budget lx) pv token [] lx1)"

fun array_loop ::
  "nat \<Rightarrow> value_parser \<Rightarrow> Token \<Rightarrow> JsonArray \<Rightarrow> JsonLexer \<Rightarrow> JsonArray parse_result" where
  "array_loop 0 pv token array lx = Inl OutOfFuel"
| "array_loop (Suc fuel) pv token array lx =
     (case pv token lx of
        Inl e \<Rightarrow> Inl e
      | Inr (value, lx1) \<Rightarrow>
          let array' = array @ [value] in
     (case next_token lx1 of
        Inl e \<Rightarrow> Inl e
      | Inr (sep, lx2) \<Rightarrow>
          if tok_type sep = RightBracket then Inr (array', lx2)
          else if tok_type sep \<noteq> Comma
          then fail (''Expected '' @ [CHR 0x27] @ '','' @ [CHR 0x27] @ '' or '' @
                 [CHR 0x27] @ '']'' @ [CHR 0x27] @ '' after array value'') lx2
          else
     (case next_token lx2 of
        Inl e \<Rightarrow> Inl e
      | Inr (token', lx3) \<Rightarrow> array_loop fuel pv token' array' lx3)))"

definition parse_array :: "value_parser \<Rightarrow> JsonLexer \<Rightarrow> JsonArray parse_result" where
  "parse_array pv lx =
     (case next_token lx of
        Inl e \<Rightarrow> Inl e
      | Inr (token, lx1) \<Rightarrow>
          if tok_type token = RightBracket then Inr ([], lx1)
          else array_loop (loop_budget lx) pv token [] lx1)"

fun parse_value :: "nat \<Rightarrow> Token \<Rightarrow> nat \<Rightarrow> JsonLexer \<Rightarrow> JsonValue parse_result" where
  "parse_value levels token depth lx =
     (case tok_type token of
        LeftBrace \<Rightarrow>
          if depth \<ge> kMaxJsonDepth then fail ''JSON nested too deeply'' lx
          else (case levels of
                  0 \<Rightarrow> Inl OutOfFuel
                | Suc n \<Rightarrow>
                   (case parse_object (\<lambda>t. parse_value n t (depth + 1)) lx of
                      Inl e \<Rightarrow> Inl e
                    | Inr (obj, lx') \<Rightarrow> Inr (JObject obj, lx')))
      | LeftBracket \<Rightarrow>
          if depth \<ge> kMaxJsonDepth then fail ''JSON nested too deeply'' lx
          else (case levels of
                  0 \<Rightarrow> Inl OutOfFuel
                | Suc n \<Rightarrow>
                   (case parse_array (\<lambda>t. parse_value n t (depth + 1)) lx of
                      Inl e \<Rightarrow> Inl e
                    | Inr (arr, lx') \<Rightarrow> Inr (JArray arr, lx')))
      | String_tok \<Rightarrow>
          (case string_value token lx of Inl e \<Rightarrow> Inl e | Inr s \<Rightarrow> Inr (JString s, lx))
      | Number_tok \<Rightarrow> Inr (JString (tok_text token), lx)
      | True_tok \<Rightarrow> Inr (JBool True, lx)
      | False_tok \<Rightarrow> Inr (JBool False, lx)
      | Null_tok \<Rightarrow> Inr (JNull, lx)
      | End \<Rightarrow> fail ''Unexpected end of JSON'' lx
      | _ \<Rightarrow> fail ''Unexpected token in value position'' lx)"

declare parse_value.simps [simp del]

definition parse :: "string \<Rightarrow> json_error + JsonValue" where
  "parse text =
     (case next_token (JsonLexer_init text) of
        Inl e \<Rightarrow> Inl e
      | Inr (first, lx1) \<Rightarrow>
     (case parse_value kMaxJsonDepth first 0 lx1 of
        Inl e \<Rightarrow> Inl e
      | Inr (value, lx2) \<Rightarrow>
     (case next_token lx2 of
        Inl e \<Rightarrow> Inl e
      | Inr (last_tok, lx3) \<Rightarrow>
          if tok_type last_tok \<noteq> End then fail ''Trailing characters after JSON value'' lx3
          else Inr value)))"

definition parse_json :: "string \<Rightarrow> string + JsonValue" where
  "parse_json text =
     (case parse text of Inl e \<Rightarrow> Inl (message e) | Inr value \<Rightarrow> Inr value)"

section \<open>Reading forward\<close>

text \<open>
  \<open>lx_le\<close>: the second lexer is the first, some bytes later. \<open>reads\<close>: a computation started at
  a lexer ends in an error other than \<open>OutOfFuel\<close> or at a later lexer.
\<close>

definition lx_le :: "JsonLexer \<Rightarrow> JsonLexer \<Rightarrow> bool" where
  "lx_le lx lx' \<longleftrightarrow> lx_input lx' = lx_input lx \<and> lx_pos lx \<le> lx_pos lx' \<and> (lx_ok lx \<longrightarrow> lx_ok lx')"

definition reads :: "JsonLexer \<Rightarrow> json_error + ('a \<times> JsonLexer) \<Rightarrow> bool" where
  "reads lx r \<longleftrightarrow> (case r of Inl e \<Rightarrow> e \<noteq> OutOfFuel | Inr (v, lx') \<Rightarrow> lx_le lx lx')"

definition bytes_left :: "JsonLexer \<Rightarrow> nat" where
  "bytes_left lx = length (lx_input lx) - lx_pos lx"

lemma lx_le_refl [simp]: "lx_le lx lx"
  by (simp add: lx_le_def)

lemma lx_le_trans: "lx_le a b \<Longrightarrow> lx_le b c \<Longrightarrow> lx_le a c"
  by (auto simp: lx_le_def)

lemma lx_le_ok: "lx_le a b \<Longrightarrow> lx_ok a \<Longrightarrow> lx_ok b"
  by (simp add: lx_le_def)

lemma next_token_le: "next_token lx = Inr (t, lx') \<Longrightarrow> lx_le lx lx'"
  using next_token_progress [of lx t lx'] by (simp add: lx_le_def)

lemma lx_le_bytes_left: "lx_le a b \<Longrightarrow> bytes_left b \<le> bytes_left a"
  by (auto simp: lx_le_def bytes_left_def)

lemma bytes_left_less:
  "next_token a = Inr (t, b) \<Longrightarrow> tok_type t \<noteq> End \<Longrightarrow> lx_ok a \<Longrightarrow> bytes_left b < bytes_left a"
  using next_token_progress [of a t b] by (auto simp: bytes_left_def lx_ok_def)

lemma budget_enough: "bytes_left lx' \<le> bytes_left lx \<Longrightarrow> bytes_left lx' < loop_budget lx"
  by (simp add: loop_budget_def bytes_left_def)

lemma reads_next [intro, simp]: "reads lx (next_token lx)"
  using next_token_no_fuel [of lx] next_token_le [of lx]
  by (auto simp: reads_def split: sum.split prod.split)

lemma reads_fail [intro, simp]: "reads lx (fail w lx')"
  by (simp add: reads_def fail_def)

lemma reads_Inr [simp]: "reads lx (Inr (v, lx')) \<longleftrightarrow> lx_le lx lx'"
  by (simp add: reads_def)

lemma reads_Inl [intro]: "e \<noteq> OutOfFuel \<Longrightarrow> reads lx (Inl e)"
  by (simp add: reads_def)

lemma reads_mono: "lx_le lx lx' \<Longrightarrow> reads lx' r \<Longrightarrow> reads lx r"
  by (auto simp: reads_def intro: lx_le_trans split: sum.splits)

lemma reads_bind:
  assumes "reads lx r" and "lx_ok lx"
    and "\<And>v lx'. r = Inr (v, lx') \<Longrightarrow> lx_ok lx' \<Longrightarrow> bytes_left lx' \<le> bytes_left lx \<Longrightarrow> reads lx' (k v lx')"
  shows "reads lx (case r of Inl e \<Rightarrow> Inl e | Inr (v, lx') \<Rightarrow> k v lx')"
proof (cases r)
  case (Inl e)
  with assms(1) show ?thesis by (simp add: reads_def)
next
  case (Inr x)
  obtain v lx' where x: "x = (v, lx')" by (cases x)
  with assms(1) Inr have le: "lx_le lx lx'" by simp
  with assms(2) have "lx_ok lx'" "bytes_left lx' \<le> bytes_left lx"
    by (auto intro: lx_le_ok lx_le_bytes_left)
  with assms(3) Inr x le show ?thesis by (auto intro: reads_mono)
qed

lemma reads_InlD: "reads lx r \<Longrightarrow> r \<noteq> Inl OutOfFuel"
  by (auto simp: reads_def)

lemma string_value_no_fuel: "string_value token lx \<noteq> Inl OutOfFuel"
  by (simp add: string_value_def fail_def split: sum.split)

lemma reads_string_value [simp]:
  "reads lx (case string_value token lx of Inl e \<Rightarrow> Inl e | Inr s \<Rightarrow> Inr (JString s, lx))"
  using string_value_no_fuel [of token lx] by (auto simp: reads_def split: sum.splits)

section \<open>The container loops over any value parser\<close>

text \<open>
  What the container parsers rely on: the value parser reads forward. Then so do they, and
  their loops finish within the budget.
\<close>

locale value_reader =
  fixes pv :: "Token \<Rightarrow> JsonLexer \<Rightarrow> JsonValue parse_result"
  assumes value_reads: "lx_ok lx \<Longrightarrow> reads lx (pv t lx)"
begin

lemma object_loop_reads:
  "lx_ok lx \<Longrightarrow> bytes_left lx < fuel \<Longrightarrow> reads lx (object_loop fuel pv token object lx)"
proof (induction fuel arbitrary: token object lx)
  case (Suc fuel)
  have again: "reads lx5 (object_loop fuel pv t o' lx5)"
    if "tok_type sep = Comma" "next_token lx3 = Inr (sep, lx4)" "lx_ok lx3" "lx_ok lx5"
      "bytes_left lx3 \<le> bytes_left lx" "bytes_left lx5 \<le> bytes_left lx4" for lx3 lx4 lx5 sep t o'
    using that Suc.prems bytes_left_less [OF that(2) _ that(3)] by (intro Suc.IH) auto
  show ?case
  proof (cases "string_value token lx")
    case (Inl e)
    then show ?thesis using string_value_no_fuel [of token lx] by (auto intro: reads_Inl)
  next
    case (Inr key)
    with Suc.prems(1) show ?thesis
      unfolding object_loop.simps Inr sum.case Let_def
      by (auto intro!: reads_bind value_reads) (rule again, (assumption | linarith)+)
  qed
qed simp

lemma array_loop_reads:
  "lx_ok lx \<Longrightarrow> bytes_left lx < fuel \<Longrightarrow> reads lx (array_loop fuel pv token array lx)"
proof (induction fuel arbitrary: token array lx)
  case (Suc fuel)
  have again: "reads lx3 (array_loop fuel pv t a' lx3)"
    if "tok_type sep = Comma" "next_token lx1 = Inr (sep, lx2)" "lx_ok lx1" "lx_ok lx3"
      "bytes_left lx1 \<le> bytes_left lx" "bytes_left lx3 \<le> bytes_left lx2" for lx1 lx2 lx3 sep t a'
    using that Suc.prems bytes_left_less [OF that(2) _ that(3)] by (intro Suc.IH) auto
  with Suc.prems(1) show ?case
    unfolding array_loop.simps Let_def
    by (auto intro!: reads_bind value_reads)
qed simp

lemma parse_object_reads: "lx_ok lx \<Longrightarrow> reads lx (parse_object pv lx)"
  unfolding parse_object_def
  by (auto intro!: reads_bind object_loop_reads budget_enough)

lemma parse_array_reads: "lx_ok lx \<Longrightarrow> reads lx (parse_array pv lx)"
  unfolding parse_array_def
  by (auto intro!: reads_bind array_loop_reads budget_enough)

end

section \<open>Parsing terminates with a result\<close>

lemma parse_value_reads: "kMaxJsonDepth \<le> levels + depth \<Longrightarrow> lx_ok lx \<Longrightarrow> reads lx (parse_value levels t depth lx)"
proof (induction levels arbitrary: t depth lx)
  case 0
  then show ?case by (simp add: parse_value.simps [of 0] split: TokenType.split)
next
  case (Suc n)
  have vr: "value_reader (\<lambda>t. parse_value n t (depth + 1))"
    using Suc.IH [of "depth + 1"] Suc.prems(1) by unfold_locales simp
  show ?case
    using Suc.prems(2) value_reader.parse_object_reads [OF vr] value_reader.parse_array_reads [OF vr]
    by (auto simp: parse_value.simps [of "Suc n"] intro!: reads_bind split: TokenType.split)
qed

interpretation json_value: value_reader "\<lambda>t. parse_value (kMaxJsonDepth - depth) t depth" for depth
  by unfold_locales (simp add: parse_value_reads)

lemma lx_ok_init [simp]: "lx_ok (JsonLexer_init text)"
  by (simp add: lx_ok_def JsonLexer_init_def)

lemma parse_no_fuel: "parse text \<noteq> Inl OutOfFuel"
proof -
  have "reads (JsonLexer_init text)
    (case next_token (JsonLexer_init text) of
        Inl e \<Rightarrow> Inl e
      | Inr (first, lx1) \<Rightarrow>
     (case parse_value kMaxJsonDepth first 0 lx1 of
        Inl e \<Rightarrow> Inl e
      | Inr (value, lx2) \<Rightarrow>
     (case next_token lx2 of
        Inl e \<Rightarrow> Inl e
      | Inr (last_tok, lx3) \<Rightarrow>
          if tok_type last_tok \<noteq> End then fail ''Trailing characters after JSON value'' lx3
          else Inr (value, lx3))))"
    by (auto intro!: reads_bind parse_value_reads)
  then show ?thesis
    by (auto simp: parse_def reads_def fail_def split: sum.splits if_splits)
qed

section \<open>Objects\<close>

text \<open>A \<open>flat_map\<close>: strictly increasing keys, so no key twice.\<close>

abbreviation sorted_keys :: "(string \<times> 'v) list \<Rightarrow> bool" where
  "sorted_keys ps \<equiv> sorted_wrt (<) (map fst ps)"

lemma map_of_emplace:
  "sorted_keys ps \<Longrightarrow> map_of (emplace k v ps) = (case map_of ps k of None \<Rightarrow> (map_of ps)(k \<mapsto> v) | Some _ \<Rightarrow> map_of ps)"
proof (induction k v ps rule: emplace.induct)
  case (2 k v a b ps)
  show ?case
  proof (cases "k < a")
    case True
    then have "map_of ((a, b) # ps) k = None"
      using 2 by (force simp: map_of_eq_None_iff)
    with True show ?thesis by auto
  next
    case False
    with 2 show ?thesis by (auto simp: fun_eq_iff split: option.split)
  qed
qed auto

lemma keys_emplace: "set (map fst (emplace k v ps)) = insert k (set (map fst ps))"
  by (induction k v ps rule: emplace.induct) auto

lemma sorted_emplace [wf_preserve]: "sorted_keys ps \<Longrightarrow> sorted_keys (emplace k v ps)"
proof (induction k v ps rule: emplace.induct)
  case (2 k v a b ps)
  then show ?case
    using keys_emplace [of k v ps] by (auto simp: less_le_trans not_less le_less)
qed simp

section \<open>Properties\<close>

text \<open>
  C21. \<open>parse\<close> returns a value or an error of the source on every text: the recursion over nested
  containers and the loops over their members end within the bytes of the text.
\<close>

theorem parse_terminates: "(\<exists>v. parse text = Inr v) \<or> (\<exists>w pos. parse text = Inl (JsonError w pos))"
  using parse_no_fuel [of "text"] by (cases "parse text") (auto, metis json_error.exhaust)

end
