(* ===== verification/Http_Client.thy ===== *)
theory Http_Client
  imports Http_Response Kalshi_Auth Json_Parser
begin

text \<open>
  \<open>include/http_client.hpp\<close> and \<open>src/protocol/http_client.cpp\<close>: the HTTPS client that keeps one
  connection open. Times are integers in nanoseconds. \<open>hc_tls\<close> says whether a connection is held;
  \<open>hc_signer\<close> is the key id of the signer, if there is one.
\<close>

section \<open>Definitions\<close>

definition kMaxIdle :: int where
  "kMaxIdle = 50 * 1000000000"

record HttpClient =
  hc_host :: string
  hc_signer :: "string option"
  hc_tls :: bool
  hc_buffer :: string
  hc_last_used :: int
  hc_last_send :: int
  hc_connections_opened :: nat

definition HttpClient_init :: "string \<Rightarrow> string option \<Rightarrow> HttpClient" where
  "HttpClient_init host signer =
     \<lparr>hc_host = host, hc_signer = signer, hc_tls = False, hc_buffer = [], hc_last_used = 0,
      hc_last_send = 0, hc_connections_opened = 0\<rparr>"

definition open_connection :: "HttpClient \<Rightarrow> ((string + unit) \<times> HttpClient) io" where
  "open_connection c0 =
     (let c = c0\<lparr>hc_tls := False, hc_buffer := []\<rparr> in
      io_bind (tls_connect HttpSock (hc_host c) ''443'') (\<lambda>result.
      case result of
        Inl e \<Rightarrow> io_return (Inl e, c)
      | Inr _ \<Rightarrow>
          io_bind clock_now (\<lambda>now.
          io_return (Inr (), c\<lparr>hc_tls := True, hc_connections_opened := hc_connections_opened c + 1,
                              hc_last_used := now\<rparr>))))"

definition idle_connection_is_dead :: "HttpClient \<Rightarrow> bool io" where
  "idle_connection_is_dead c =
     io_bind clock_now (\<lambda>now.
     if now - hc_last_used c > kMaxIdle then io_return True else poll_readable)"

definition connect :: "HttpClient \<Rightarrow> ((string + unit) \<times> HttpClient) io" where
  "connect c =
     (if hc_tls c then
        io_bind (idle_connection_is_dead c) (\<lambda>dead.
        if \<not> dead then io_return (Inr (), c) else open_connection c)
      else open_connection c)"

function read_response :: "HttpClient \<Rightarrow> ((string + HttpResponse) \<times> HttpClient) io" where
  "read_response c w =
     (case parse_http_response (hc_buffer c) False of
        Inl e \<Rightarrow> Some ((Inl e, c), w)
      | Inr (Some parsed) \<Rightarrow>
          Some ((Inr (response parsed), c\<lparr>hc_buffer := drop (http_consumed parsed) (hc_buffer c)\<rparr>), w)
      | Inr None \<Rightarrow>
         (case tls_receive HttpSock w of
            None \<Rightarrow> None
          | Some (Inl e, w') \<Rightarrow>
             (case parse_http_response (hc_buffer c) True of
                Inr (Some parsed) \<Rightarrow> Some ((Inr (response parsed), c), w')
              | _ \<Rightarrow> Some ((Inl (''reading response: '' @ e), c), w'))
          | Some (Inr chunk, w') \<Rightarrow> read_response (c\<lparr>hc_buffer := hc_buffer c @ chunk\<rparr>) w'))"
  by pat_completeness auto
termination
  by (relation "measure (\<lambda>(c, w). length (answers w))") (auto dest: receive_less)

declare read_response.simps [simp del]

definition request_text :: "string \<Rightarrow> string \<Rightarrow> string \<Rightarrow> string \<Rightarrow> string \<Rightarrow> string" where
  "request_text method path host auth body =
     (let content_headers =
            (if body \<noteq> [] \<or> method = ''POST''
             then ''Content-Type: application/json'' @ [CR, LF] @ ''Content-Length: '' @ show_nat (length body) @ [CR, LF]
             else []) in
      method @ '' '' @ path @ '' HTTP/1.1'' @ [CR, LF] @ ''Host: '' @ host @ [CR, LF] @
      auth @ content_headers @ [CR, LF] @ body)"

text \<open>The part of \<open>request\<close> after the headers are signed.\<close>

definition finish_request :: "HttpClient \<Rightarrow> ((string + HttpResponse) \<times> HttpClient) io" where
  "finish_request c =
     io_bind clock_now (\<lambda>now.
     io_bind (read_response (c\<lparr>hc_last_send := now\<rparr>)) (\<lambda>(result, c1).
     io_bind clock_now (\<lambda>now2.
     let c2 = c1\<lparr>hc_last_used := now2\<rparr>;
         keep = (case result of Inl _ \<Rightarrow> False | Inr r \<Rightarrow> keep_alive r) in
     io_return (result, if keep then c2 else c2\<lparr>hc_tls := False\<rparr>))))"

definition send_failed :: "string \<Rightarrow> HttpClient \<Rightarrow> ((string + HttpResponse) \<times> HttpClient) io" where
  "send_failed e c = io_return (Inl (''sending request: '' @ e), c\<lparr>hc_tls := False\<rparr>)"

text \<open>
  Sending on a connection just opened (a failure is final), opening one and sending on it, and
  sending on a reused connection (after a failure, once more on a new one).
\<close>

definition send_once :: "string \<Rightarrow> HttpClient \<Rightarrow> ((string + HttpResponse) \<times> HttpClient) io" where
  "send_once text c =
     io_bind (tls_send HttpSock text) (\<lambda>sent.
     case sent of
       Inr _ \<Rightarrow> finish_request c
     | Inl e \<Rightarrow> send_failed e c)"

definition open_and_send :: "string \<Rightarrow> HttpClient \<Rightarrow> ((string + HttpResponse) \<times> HttpClient) io" where
  "open_and_send text c =
     io_bind (open_connection c) (\<lambda>(opened, c1).
     case opened of
       Inl e \<Rightarrow> io_return (Inl e, c1)
     | Inr _ \<Rightarrow> send_once text c1)"

definition send_reused :: "string \<Rightarrow> HttpClient \<Rightarrow> ((string + HttpResponse) \<times> HttpClient) io" where
  "send_reused text c =
     io_bind (tls_send HttpSock text) (\<lambda>sent.
     case sent of
       Inr _ \<Rightarrow> finish_request c
     | Inl _ \<Rightarrow> open_and_send text c)"

definition send_request :: "string \<Rightarrow> HttpClient \<Rightarrow> ((string + HttpResponse) \<times> HttpClient) io" where
  "send_request text c =
     io_bind (if hc_tls c then io_bind (idle_connection_is_dead c) (\<lambda>dead. io_return (\<not> dead)) else io_return False)
       (\<lambda>reused.
     if reused then send_reused text c else open_and_send text c)"

definition request :: "string \<Rightarrow> string \<Rightarrow> string \<Rightarrow> HttpClient \<Rightarrow> ((string + HttpResponse) \<times> HttpClient) io" where
  "request method path body c =
     io_bind (case hc_signer c of None \<Rightarrow> io_return (Inr []) | Some kid \<Rightarrow> auth_headers kid method path) (\<lambda>auth.
     case auth of
       Inl e \<Rightarrow> io_return (Inl e, c)
     | Inr headers \<Rightarrow> send_request (request_text method path (hc_host c) headers body) c)"

definition request_json :: "string \<Rightarrow> string \<Rightarrow> string \<Rightarrow> HttpClient \<Rightarrow> ((string + JsonValue) \<times> HttpClient) io" where
  "request_json method path body c =
     io_bind (request method path body c) (\<lambda>(result, c').
     io_return
       (case result of
          Inl e \<Rightarrow> Inl e
        | Inr r \<Rightarrow>
           (case parse_json (http_body r) of
              Inl e \<Rightarrow> Inl (''HTTP '' @ show_int (status r) @ '' with unparseable body: '' @ e)
            | Inr v \<Rightarrow> Inr v), c'))"

section \<open>Progress\<close>

lemma read_response_consumes: "read_response c w = Some (x, w') \<Longrightarrow> consumes w w'"
proof (induction c w arbitrary: x w' rule: read_response.induct)
  case (1 c w)
  have rcv: "consumes w w1" if "tls_receive HttpSock w = Some (r, w1)" for r w1
    using shrinks_consumes [OF shrinks_calls(3) that] .
  from "1.prems" show ?case
    by (cases x) (auto simp: read_response.simps [of c w] split: sum.splits option.splits prod.splits
        dest: rcv "1.IH" intro: consumes_trans)
qed

lemma shrinks_read_response [shrink]: "shrinks (read_response c)"
  using read_response_consumes by (auto simp: shrinks_def)

lemma shrinks_open_connection [shrink]: "shrinks (open_connection c)"
  unfolding open_connection_def Let_def by (intro shrink)

lemma shrinks_connect [shrink]: "shrinks (connect c)"
  unfolding connect_def idle_connection_is_dead_def by (intro shrink)

lemma shrinks_request [shrink]: "shrinks (request method path body c)"
  unfolding request_def send_request_def send_reused_def open_and_send_def send_once_def finish_request_def
    send_failed_def idle_connection_is_dead_def Let_def
  by (intro shrink)

lemma shrinks_request_json [shrink]: "shrinks (request_json method path body c)"
  unfolding request_json_def by (intro shrink)

section \<open>What the operations ask of the network\<close>

lemma clock_quiet: "io_wp clock_now (\<lambda>_. adds quiet w) w"
  by (auto intro!: wp intro: adds_one)

lemma read_response_quiet: "read_response c w = Some (x, w') \<Longrightarrow> adds quiet w w'"
proof (induction c w arbitrary: x w' rule: read_response.induct)
  case (1 c w)
  show ?case
  proof (cases "\<exists>e. parse_http_response (hc_buffer c) False = Inl e \<or> (\<exists>p. parse_http_response (hc_buffer c) False = Inr (Some p))")
    case True
    with "1.prems" show ?thesis by (auto simp: read_response.simps [of c w])
  next
    case False
    then have none: "parse_http_response (hc_buffer c) False = Inr None"
      by (metis not_Some_eq sum.exhaust)
    with "1.prems" obtain r w1 where r: "tls_receive HttpSock w = Some (r, w1)"
      by (auto simp: read_response.simps [of c w] split: option.splits)
    have first: "adds quiet w w1" using call_trace(3) [OF r] by (rule adds_one) simp
    show ?thesis
    proof (cases r)
      case (Inl e)
      with "1.prems" none r first show ?thesis
        by (auto simp: read_response.simps [of c w] split: sum.splits option.splits)
    next
      case (Inr chunk)
      with "1.prems" none r have "read_response (c\<lparr>hc_buffer := hc_buffer c @ chunk\<rparr>) w1 = Some (x, w')"
        by (simp add: read_response.simps [of c w])
      with "1.IH" none r Inr have "adds quiet w1 w'" by (cases x) auto
      with first show ?thesis by (rule adds_trans)
    qed
  qed
qed

text \<open>The loop is \<open>read_until\<close> on what the socket delivers, with one more attempt at its end.\<close>

definition at_close :: "string \<Rightarrow> string \<Rightarrow> string + HttpResponse" where
  "at_close e buf =
     (case parse_http_response buf True of
        Inr (Some parsed) \<Rightarrow> Inr (response parsed)
      | _ \<Rightarrow> Inl (''reading response: '' @ e))"

definition read_result :: "(string + string + HttpResponse) \<Rightarrow> string \<Rightarrow> string + HttpResponse" where
  "read_result r buf = (case r of Inl e \<Rightarrow> Inl e | Inr (Inl e) \<Rightarrow> at_close e buf | Inr (Inr resp) \<Rightarrow> Inr resp)"

lemma http_outcome_at:
  "parse_http_response bs False = Inl e \<Longrightarrow> http_outcome bs = Reject e"
  "parse_http_response bs False = Inr None \<Longrightarrow> http_outcome bs = NeedMore"
  "parse_http_response bs False = Inr (Some p) \<Longrightarrow> http_outcome bs = Accept (response p) (http_consumed p)"
  by (simp_all add: http_outcome_def)

lemma read_response_read_until:
  "map_option (\<lambda>((r, c'), w'). (r, c', deliveries (answers w'))) (read_response c w) =
     map_option (\<lambda>(r, buf, script). (read_result r buf, c\<lparr>hc_buffer := buf\<rparr>, script))
       (read_until http_outcome (hc_buffer c) (deliveries (answers w)))"
proof (induction c w rule: read_response.induct)
  case (1 c w)
  note unfold = read_response.simps [of c w] read_until.simps [of http_outcome "hc_buffer c"] read_result_def http_outcome_at
  show ?case
  proof (cases "parse_http_response (hc_buffer c) False")
    case (Inl e)
    then show ?thesis by (simp add: unfold)
  next
    case (Inr found)
    show ?thesis
    proof (cases found)
      case (Some p)
      with Inr show ?thesis by (simp add: unfold)
    next
      case None
      with Inr have none: "parse_http_response (hc_buffer c) False = Inr None" by simp
      show ?thesis
      proof (cases "tls_receive HttpSock w")
        case None
        with none receive_blocked [OF None] show ?thesis by (simp add: unfold)
      next
        case (Some rw)
        obtain r w1 where rw: "rw = (r, w1)" by (cases rw)
        from receive_deliveries [of HttpSock w r w1] Some rw
        have d: "deliveries (answers w) = r # deliveries (answers w1)" by simp
        show ?thesis
        proof (cases r)
          case (Inl e)
          with none Some rw d show ?thesis
            by (auto simp: unfold at_close_def split: sum.split option.split)
        next
          case (Inr chunk)
          with none Some rw d "1.IH" [OF none] show ?thesis by (simp add: unfold)
        qed
      qed
    qed
  qed
qed

lemma read_response_keeps:
  assumes "read_response c w = Some ((r, c'), w')"
  shows "\<exists>buf. c' = c\<lparr>hc_buffer := buf\<rparr>"
  using assms read_response_read_until [of c w] by (auto simp: map_option_case split: option.splits)

lemma read_response_loop:
  assumes "read_response c w = Some ((r, c'), w')"
  obtains r0 buf where
    "read_until http_outcome (hc_buffer c) (deliveries (answers w)) = Some (r0, buf, deliveries (answers w'))"
    "r = read_result r0 buf" "c' = c\<lparr>hc_buffer := buf\<rparr>"
  using assms read_response_read_until [of c w] by (auto simp: map_option_case split: option.splits)

text \<open>
  Postconditions of the parts of a request: the calls they make, whether a connection is held
  afterwards, and how many were opened.
\<close>

definition opens :: "string \<Rightarrow> string + unit \<Rightarrow> call \<times> answer" where
  "opens host r = (CallConnect HttpSock host ''443'', AnsConnect r)"

definition sends_text :: "string \<Rightarrow> string + nat \<Rightarrow> call \<times> answer" where
  "sends_text text r = (CallSend HttpSock text, AnsSend r)"

lemma event_simps [simp]:
  "sends (opens h r # es) = sends es" "settled (opens h r # es) = settled es"
  "sends (sends_text t s # es) = (t, s) # sends es"
  "settled (sends_text t (Inl e) # es) = settled es"
  "settled (sends_text t (Inr n) # es) = list_all quiet es"
  by (simp_all add: opens_def sends_text_def)

declare sends.simps(2) [simp del] settled.simps(2) [simp del]

lemma open_connection_wp:
  "io_wp (open_connection c)
     (\<lambda>(r, c') w'. (\<exists>qs. trace w' = trace w @ opens (hc_host c) r # qs \<and> list_all quiet qs) \<and>
        hc_tls c' = (\<not> isl r) \<and> hc_host c' = hc_host c \<and>
        hc_connections_opened c' = hc_connections_opened c + (if isl r then 0 else 1)) w"
  unfolding open_connection_def Let_def
  by (auto intro!: wp simp: wp opens_def split: sum.split)

lemma idle_wp: "io_wp (idle_connection_is_dead c) (\<lambda>_. adds quiet w) w"
  unfolding idle_connection_is_dead_def
  by (auto intro!: wp simp: wp adds_def)

lemma auth_wp: "io_wp (auth_headers kid m p) (\<lambda>_. adds quiet w) w"
  by (rule io_wp_mono [OF auth_headers_wp]) (auto simp: adds_def)

definition kept :: "string + HttpResponse \<Rightarrow> bool" where
  "kept r = (case r of Inl _ \<Rightarrow> False | Inr x \<Rightarrow> keep_alive x)"

lemma finish_request_wp:
  "io_wp (finish_request c)
     (\<lambda>(r, c') w'. adds quiet w w' \<and> hc_tls c' = (hc_tls c \<and> kept r) \<and>
        hc_connections_opened c' = hc_connections_opened c) w"
proof -
  have read: "io_wp (read_response c1) (\<lambda>(r, c') w'. adds quiet w1 w' \<and> (\<exists>buf. c' = c1\<lparr>hc_buffer := buf\<rparr>)) w1" for c1 w1
    by (rule io_wpI) (auto dest: read_response_quiet read_response_keeps)
  show ?thesis
    unfolding finish_request_def Let_def kept_def wp_bind
    by (rule wp io_wp_mono [OF read] | clarsimp simp: wp)+
      (auto simp: adds_def split: sum.split)
qed

text \<open>
  The calls of an attempt that may open a connection and sends once: \<open>attempt\<close>; those of a whole
  request, which is sent twice only if a connection that it reused refused it: \<open>policy\<close>.
\<close>

definition attempt :: "HttpClient \<Rightarrow> string \<Rightarrow> string + HttpResponse \<Rightarrow> HttpClient \<Rightarrow> (call \<times> answer) list \<Rightarrow> bool" where
  "attempt c text r c' es \<longleftrightarrow>
     settled es \<and> (sends es = [] \<and> isl r \<or> (\<exists>a. sends es = [(text, a)] \<and> (isl a \<longrightarrow> isl r))) \<and>
     hc_tls c' = kept r \<and> hc_connections_opened c' = hc_connections_opened c + count_list es (opens (hc_host c) (Inr ()))"

definition policy :: "HttpClient \<Rightarrow> string \<Rightarrow> string + HttpResponse \<Rightarrow> HttpClient \<Rightarrow> (call \<times> answer) list \<Rightarrow> bool" where
  "policy c text r c' es \<longleftrightarrow>
     settled es \<and>
     (sends es = [] \<and> isl r \<or>
      (\<exists>a. sends es = [(text, a)] \<and> (isl a \<longrightarrow> isl r)) \<or>
      hc_tls c \<and> (\<exists>e a. sends es = [(text, Inl e), (text, a)] \<and> (isl a \<longrightarrow> isl r))) \<and>
     hc_tls c' = kept r \<and> hc_connections_opened c' = hc_connections_opened c + count_list es (opens (hc_host c) (Inr ()))"

lemma count_quiet [simp]: "list_all quiet es \<Longrightarrow> count_list es (opens h r) = 0"
  by (induction es) (auto simp: opens_def quiet_def)

lemma count_events [simp]: "sends_text t a \<noteq> opens h r" "opens h r \<noteq> sends_text t a" "opens h r = opens h' r' \<longleftrightarrow> h = h' \<and> r = r'"
  by (auto simp: sends_text_def opens_def)

lemma attempt_quiet: "list_all quiet qs \<Longrightarrow> attempt c text r c' es \<Longrightarrow> attempt c text r c' (qs @ es)"
  by (auto simp: attempt_def sends_append)

lemma attempt_policy: "attempt c text r c' es \<Longrightarrow> policy c text r c' es"
  by (auto simp: attempt_def policy_def)

lemma send_once_wp:
  assumes "hc_tls c"
  shows "io_wp (send_once text c) (\<lambda>(r, c') w'. \<exists>es. trace w' = trace w @ es \<and> attempt c text r c' es) w"
  unfolding send_once_def wp_bind
proof (rule wp)
  fix s and w1 :: world
  assume sent: "trace w1 = trace w @ [(CallSend HttpSock text, AnsSend s)]"
  show "io_wp (case s of Inr _ \<Rightarrow> finish_request c | Inl e \<Rightarrow> send_failed e c)
     (\<lambda>(r, c') w'. \<exists>es. trace w' = trace w @ es \<and> attempt c text r c' es) w1"
  proof (cases s)
    case (Inl e)
    then have "attempt c text (Inl (''sending request: '' @ e)) (c\<lparr>hc_tls := False\<rparr>) [sends_text text s]"
      by (simp add: attempt_def kept_def)
    with sent Inl show ?thesis by (auto simp: send_failed_def wp sends_text_def)
  next
    case (Inr n)
    have "attempt c text r c' (sends_text text s # qs)"
      if "list_all quiet qs" "hc_tls c' = (hc_tls c \<and> kept r)" "hc_connections_opened c' = hc_connections_opened c" for r c' qs
      using that assms Inr by (simp add: attempt_def)
    with sent Inr show ?thesis
      by (fastforce simp: adds_def sends_text_def intro!: io_wp_mono [OF finish_request_wp])
  qed
qed

lemma open_and_send_wp:
  "io_wp (open_and_send text c) (\<lambda>(r, c') w'. \<exists>es. trace w' = trace w @ es \<and> attempt c text r c' es) w"
  unfolding open_and_send_def wp_bind
proof (rule io_wp_mono [OF open_connection_wp], clarsimp split del: if_split, goal_cases)
  case (1 opened c1 w1 qs)
  show ?case
  proof (cases opened)
    case (Inl e)
    with 1 have "attempt c text (Inl e) c1 (opens (hc_host c) opened # qs)" by (simp add: attempt_def kept_def)
    with 1 Inl show ?thesis by (auto simp: wp)
  next
    case (Inr u)
    have "attempt c text r c' (opens (hc_host c) opened # qs @ es)" if "attempt c1 text r c' es" for r c' es
      using that 1 Inr by (auto simp: attempt_def sends_append)
    with 1 Inr show ?thesis by (fastforce intro!: io_wp_mono [OF send_once_wp])
  qed
qed

lemma send_reused_wp:
  assumes "hc_tls c"
  shows "io_wp (send_reused text c) (\<lambda>(r, c') w'. \<exists>es. trace w' = trace w @ es \<and> policy c text r c' es) w"
  unfolding send_reused_def wp_bind
proof (rule wp)
  fix s and w1 :: world
  assume sent: "trace w1 = trace w @ [(CallSend HttpSock text, AnsSend s)]"
  show "io_wp (case s of Inr _ \<Rightarrow> finish_request c | Inl _ \<Rightarrow> open_and_send text c)
     (\<lambda>(r, c') w'. \<exists>es. trace w' = trace w @ es \<and> policy c text r c' es) w1"
  proof (cases s)
    case (Inl e)
    have "policy c text r c' (sends_text text s # es)" if "attempt c text r c' es" for r c' es
      using that assms Inl by (auto simp: attempt_def policy_def)
    with sent Inl show ?thesis
      by (fastforce simp: sends_text_def intro!: io_wp_mono [OF open_and_send_wp])
  next
    case (Inr n)
    have "policy c text r c' (sends_text text s # qs)"
      if "list_all quiet qs" "hc_tls c' = (hc_tls c \<and> kept r)" "hc_connections_opened c' = hc_connections_opened c" for r c' qs
      using that assms Inr by (simp add: policy_def)
    with sent Inr show ?thesis
      by (fastforce simp: adds_def sends_text_def intro!: io_wp_mono [OF finish_request_wp])
  qed
qed

lemma policy_quiet: "list_all quiet qs \<Longrightarrow> policy c text r c' es \<Longrightarrow> policy c text r c' (qs @ es)"
  by (auto simp: policy_def sends_append)

lemma send_request_wp:
  "io_wp (send_request text c) (\<lambda>(r, c') w'. \<exists>es. trace w' = trace w @ es \<and> policy c text r c' es) w"
proof -
  let ?Q = "\<lambda>(r, c') w'. \<exists>es. trace w' = trace w @ es \<and> policy c text r c' es"
  have fresh: "io_wp (open_and_send text c) ?Q w1" if "adds quiet w w1" for w1
    using that attempt_policy policy_quiet
    by (fastforce simp: adds_def intro!: io_wp_mono [OF open_and_send_wp])
  have reused: "io_wp (send_reused text c) ?Q w1" if "adds quiet w w1" "hc_tls c" for w1
    using that policy_quiet
    by (fastforce simp: adds_def intro!: io_wp_mono [OF send_reused_wp])
  show ?thesis
    using fresh reused unfolding send_request_def
    by (auto simp: wp_bind wp_return intro!: io_wp_mono [OF idle_wp])
qed

lemma request_wp:
  "io_wp (request method path body c)
     (\<lambda>(r, c') w'. \<exists>es headers. trace w' = trace w @ es \<and>
        (isl r \<and> c' = c \<and> hc_signer c \<noteq> None \<and> list_all quiet es \<or> policy c (request_text method path (hc_host c) headers body) r c' es)) w"
proof -
  have send: "io_wp (send_request t c) (\<lambda>(r, c') w'. \<exists>es. trace w' = trace w @ es \<and> policy c t r c' es) w1"
    if "adds quiet w w1" for t w1
    using that policy_quiet by (fastforce simp: adds_def intro!: io_wp_mono [OF send_request_wp])
  show ?thesis
    unfolding request_def
    by (cases "hc_signer c")
      (fastforce simp: wp_bind wp_return wp_case_sum adds_def split: sum.split
        intro: io_wp_mono [OF send] intro!: io_wp_mono [OF auth_wp])+
qed

text \<open>Requests on a connection whose buffer already holds a response.\<close>

definition unread :: "call \<times> answer \<Rightarrow> bool" where
  "unread e \<longleftrightarrow> (\<forall>s. fst e \<noteq> CallReceive s)"

definition stale :: "HttpResponse \<Rightarrow> world \<Rightarrow> (string + HttpResponse) \<times> HttpClient \<Rightarrow> world \<Rightarrow> bool" where
  "stale r0 w x w' \<longleftrightarrow> (\<exists>es. trace w' = trace w @ es \<and>
     ((\<exists>e\<in>set es. is_connect e) \<or> isl (fst x) \<or> fst x = Inr r0 \<and> list_all unread es))"

lemma stale_after: "adds unread w w1 \<Longrightarrow> stale r0 w1 x w' \<Longrightarrow> stale r0 w x w'"
  by (fastforce simp: stale_def adds_def)

lemma stale_failed: "stale r0 w (Inl e, c) w"
  by (simp add: stale_def)

lemma stale_wp: "adds unread w w1 \<Longrightarrow> io_wp m (stale r0 w1) w1 \<Longrightarrow> io_wp m (stale r0 w) w1"
  by (auto intro: io_wp_mono stale_after)

lemma opening_wp: "io_wp (open_and_send text c) (stale r0 w) w"
  unfolding open_and_send_def wp_bind
proof (rule io_wp_mono [OF open_connection_wp], clarsimp split del: if_split, goal_cases)
  case (1 opened c1 w1 qs)
  have con: "is_connect (opens (hc_host c) opened)" by (simp add: opens_def)
  show ?case
  proof (cases opened)
    case (Inl e)
    with 1 con show ?thesis by (auto simp: wp stale_def)
  next
    case (Inr u)
    with 1 have "hc_tls c1" by simp
    moreover have "stale r0 w x w'" if "trace w' = trace w1 @ es" for x w' es
      using 1 con that unfolding stale_def by (intro exI [of _ "opens (hc_host c) opened # qs @ es"]) simp
    ultimately show ?thesis using Inr by (auto intro: io_wp_mono [OF send_once_wp])
  qed
qed

lemma stale_request_wp:
  assumes "parse_http_response (hc_buffer c) False = Inr (Some p)"
  shows "io_wp (request method path body c) (stale (response p) w) w"
proof -
  have read: "io_wp (read_response (c\<lparr>hc_last_send := t\<rparr>)) Q w1 =
      Q (Inr (response p), c\<lparr>hc_last_send := t, hc_buffer := drop (http_consumed p) (hc_buffer c)\<rparr>) w1" for t Q w1
    using assms by (simp add: io_wp_def read_response.simps)
  have finish: "io_wp (finish_request c) (stale (response p) w1) w1" for w1
    unfolding finish_request_def Let_def wp_bind
    by (auto intro!: wp simp: wp read stale_def unread_def)
  have reused: "io_wp (send_reused t c) (stale (response p) w1) w1" for t w1
    unfolding send_reused_def wp_bind
  proof (rule wp)
    fix s and w2 :: world
    assume "trace w2 = trace w1 @ [(CallSend HttpSock t, AnsSend s)]"
    then have "adds unread w1 w2" by (rule adds_one) (simp add: unread_def)
    then show "io_wp (case s of Inr _ \<Rightarrow> finish_request c | Inl _ \<Rightarrow> open_and_send t c) (stale (response p) w1) w2"
      by (cases s) (auto intro: stale_wp finish opening_wp)
  qed
  have idle: "io_wp (idle_connection_is_dead c) (\<lambda>_. adds unread w1) w1" for w1
    unfolding idle_connection_is_dead_def
    by (auto intro!: wp simp: wp adds_def unread_def)
  have auth: "io_wp (auth_headers kid m p) (\<lambda>_. adds unread w1) w1" for kid m p w1
    by (rule io_wp_mono [OF auth_headers_wp]) (auto simp: adds_def unread_def)
  have send: "io_wp (send_request t c) (stale (response p) w1) w1" for t w1
    unfolding send_request_def
    by (auto simp: wp_bind wp_return opening_wp intro!: io_wp_mono [OF idle])
      (erule stale_wp, simp add: reused opening_wp)+
  show ?thesis
    unfolding request_def
    by (cases "hc_signer c")
      (auto simp: wp_bind wp_return wp_case_sum send stale_failed split: sum.split
        intro!: io_wp_mono [OF auth] elim!: stale_wp)
qed

section \<open>Properties\<close>


text \<open>
  A connection is held after a request exactly if a response arrived that allows it; a request
  that could not be signed leaves the client as it was. The counter of connections counts the
  connections opened.
\<close>

theorem request_connection_state:
  assumes "request method path body c w = Some ((r, c'), w')"
  shows "isl r \<and> c' = c \<and> hc_signer c \<noteq> None \<or>
    hc_tls c' = (case r of Inl _ \<Rightarrow> False | Inr resp \<Rightarrow> keep_alive resp) \<and>
    (\<exists>es. trace w' = trace w @ es \<and>
       hc_connections_opened c' = hc_connections_opened c + count_list es (CallConnect HttpSock (hc_host c) ''443'', AnsConnect (Inr ())))"
  using io_wpD [OF request_wp assms] by (fastforce simp: policy_def kept_def opens_def)

text \<open>
  C35. The response read is the one at the head of the stream, however the network cut it: if the
  bytes in the buffer and those delivered hold a complete response, a read that succeeds returns that
  response, and buffer and socket keep exactly what follows it.
\<close>

theorem read_response_head:
  assumes "http_outcome (hc_buffer c @ delivered (deliveries (answers w))) = Accept resp n"
    and "read_response c w = Some ((Inr r, c'), w')"
  shows "r = resp \<and>
    hc_buffer c' @ delivered (deliveries (answers w')) = drop n (hc_buffer c @ delivered (deliveries (answers w)))"
proof -
  from assms(2) obtain r0 buf where
    loop: "read_until http_outcome (hc_buffer c) (deliveries (answers w)) = Some (r0, buf, deliveries (answers w'))"
    and res: "Inr r = read_result r0 buf" "c' = c\<lparr>hc_buffer := buf\<rparr>"
    by (rule read_response_loop)
  show ?thesis
  proof (cases r0)
    case (Inl e)
    with res show ?thesis by (simp add: read_result_def)
  next
    case (Inr r1)
    with loop res assms(1) read_until_error [of http_outcome] http.read_until_accept show ?thesis
      by (cases r1) (fastforce simp: read_result_def)+
  qed
qed

text \<open>
  Bytes left over from the previous response answer the next request: if the buffer of a held
  connection already holds a complete response, a request that succeeds without opening a
  connection returns that response and reads nothing from the network.
\<close>

theorem request_stale_response:
  assumes "parse_http_response (hc_buffer c) False = Inr (Some p)"
    and "request method path body c w = Some ((Inr r, c'), w')"
    and "trace w' = trace w @ es" and "list_all (\<lambda>e. \<not> is_connect e) es"
  shows "r = response p \<and> (\<forall>a. (CallReceive HttpSock, a) \<notin> set es)"
  using io_wpD [OF stale_request_wp [OF assms(1)] assms(2)] assms(3,4)
  by (auto simp: list_all_iff stale_def unread_def)

definition sample_client :: HttpClient where
  "sample_client = (HttpClient_init ''h'' None)\<lparr>hc_tls := True\<rparr>"

definition sample_world :: world where
  "sample_world = \<lparr>answers =
     [AnsTime 0, AnsPoll False, AnsSend (Inl ''reset''), AnsConnect (Inr ()), AnsTime 1, AnsSend (Inr 40), AnsTime 2,
      AnsReceive (Inr (length_head @ header_end_mark @ ''ok'')), AnsTime 3], trace = []\<rparr>"

lemma parse_http_empty: "parse_http_response [] False = Inr None"
  by (simp add: parse_http_response_def header_end_mark_def kMaxHttpHeaderBytes_def)

lemma sample_request:
  "\<exists>r c' w'. request ''GET'' ''/p'' [] sample_client sample_world = Some ((Inr r, c'), w') \<and>
     http_body r = ''ok'' \<and> length (sends (trace w')) = 2 \<and> hc_connections_opened c' = 1"
proof -
  obtain p where p: "parse_http_response (length_head @ header_end_mark @ ''ok'') False = Inr (Some p)"
    "http_body (response p) = ''ok''"
    using sample_length_response [of "''ok''" False] by auto
  note run = request_def send_request_def send_reused_def open_and_send_def send_once_def finish_request_def
    idle_connection_is_dead_def open_connection_def io_bind_def io_return_def [abs_def] Let_def calls ask_def kMaxIdle_def
    read_response.simps
  show ?thesis using p
    by (simp add: run sample_client_def sample_world_def HttpClient_init_def parse_http_empty sends.simps)
qed


theorem request_connection_state_witness:
  "\<exists>r c' w'. request ''GET'' ''/p'' [] sample_client sample_world = Some ((Inr r, c'), w') \<and>
     hc_tls c' = keep_alive r \<and> hc_connections_opened c' = count_list (trace w') (CallConnect HttpSock ''h'' ''443'', AnsConnect (Inr ()))"
proof -
  obtain r c' w' where run: "request ''GET'' ''/p'' [] sample_client sample_world = Some ((Inr r, c'), w')"
    using sample_request by blast
  from request_connection_state [OF run] show ?thesis
    using run by (auto simp: sample_world_def sample_client_def HttpClient_init_def)
qed

lemma sample_response:
  obtains p where "parse_http_response (length_head @ header_end_mark @ ''ok'') False = Inr (Some p)"
    "http_body (response p) = ''ok''"
  using sample_length_response [of "''ok''" False] by auto

theorem read_response_head_witness:
  "\<exists>r c' w'. read_response sample_client \<lparr>answers = [AnsReceive (Inr (length_head @ header_end_mark)), AnsReceive (Inr ''ok'')], trace = []\<rparr> =
       Some ((Inr r, c'), w') \<and> http_outcome (length_head @ header_end_mark @ ''ok'') = Accept r (length (length_head @ header_end_mark @ ''ok'') - length (hc_buffer c'))"
proof -
  let ?w = "\<lparr>answers = [AnsReceive (Inr (length_head @ header_end_mark)), AnsReceive (Inr ''ok'')], trace = []\<rparr>"
  obtain p where p: "parse_http_response (length_head @ header_end_mark @ ''ok'') False = Inr (Some p)"
    by (rule sample_response)
  then have acc: "http_outcome (hc_buffer sample_client @ delivered (deliveries (answers ?w))) = Accept (response p) (http_consumed p)"
    by (simp add: sample_client_def HttpClient_init_def http_outcome_at)
  have more: "parse_http_response (length_head @ header_end_mark) False = Inr None"
    using sample_length_response [of "[]"] by simp
  have run: "\<exists>c' w'. read_response sample_client ?w = Some ((Inr (response p), c'), w') \<and> answers w' = []"
    using p more by (simp add: read_response.simps sample_client_def HttpClient_init_def parse_http_empty calls ask_def)
  then obtain c' w' where run: "read_response sample_client ?w = Some ((Inr (response p), c'), w')" "answers w' = []" by blast
  from read_response_head [OF acc run(1)] run(2) parse_http_bound(2) [OF p]
  have "hc_buffer c' = drop (http_consumed p) (length_head @ header_end_mark @ ''ok'')"
    by (simp add: sample_client_def HttpClient_init_def)
  then have "length (length_head @ header_end_mark @ ''ok'') - length (hc_buffer c') = http_consumed p"
    using parse_http_bound(2) [OF p] by simp
  with run acc show ?thesis by (auto simp: sample_client_def HttpClient_init_def)
qed

theorem request_stale_response_witness:
  "\<exists>r c' w'. request ''GET'' ''/p'' [] (sample_client\<lparr>hc_buffer := length_head @ header_end_mark @ ''ok''\<rparr>)
       \<lparr>answers = [AnsTime 0, AnsPoll False, AnsSend (Inr 40), AnsTime 2, AnsTime 3], trace = []\<rparr> = Some ((Inr r, c'), w') \<and>
     http_body r = ''ok'' \<and> (\<forall>a. (CallReceive HttpSock, a) \<notin> set (trace w'))"
proof -
  let ?c = "sample_client\<lparr>hc_buffer := length_head @ header_end_mark @ ''ok''\<rparr>"
  let ?w = "\<lparr>answers = [AnsTime 0, AnsPoll False, AnsSend (Inr 40), AnsTime 2, AnsTime 3], trace = []\<rparr>"
  obtain p where p: "parse_http_response (length_head @ header_end_mark @ ''ok'') False = Inr (Some p)"
    "http_body (response p) = ''ok''" by (rule sample_response)
  note run = request_def send_request_def send_reused_def finish_request_def
    idle_connection_is_dead_def io_bind_def io_return_def [abs_def] Let_def calls ask_def kMaxIdle_def read_response.simps
  from p(1) have "\<exists>r c' w'. request ''GET'' ''/p'' [] ?c ?w = Some ((Inr r, c'), w') \<and> list_all (\<lambda>e. \<not> is_connect e) (trace w')"
    by (simp add: run sample_client_def HttpClient_init_def is_connect_def)
  then obtain r c' w' where r: "request ''GET'' ''/p'' [] ?c ?w = Some ((Inr r, c'), w')" "list_all (\<lambda>e. \<not> is_connect e) (trace w')"
    by blast
  have "r = response p \<and> (\<forall>a. (CallReceive HttpSock, a) \<notin> set (trace w'))"
    by (rule request_stale_response [OF _ r(1) _ r(2)]) (use p in simp_all)
  with r p show ?thesis by blast
qed

end
