(* ===== verification/Frames.thy ===== *)
theory Frames
  imports Byte_Stream
begin

text \<open>
  \<open>src/protocol/frame_parser.cpp\<close> and \<open>src/protocol/frame_builder.cpp\<close>: reading and writing
  WebSocket frames (RFC 6455). A \<open>std::byte\<close> is an \<open>8 word\<close>; a length field read by
  \<open>bit_cast\<close> and \<open>byteswap\<close> is the big-endian value of its bytes. The masking key that
  \<open>RAND_bytes\<close> fills in is an argument of \<open>frame_builder\<close>, \<open>None\<close> where the call fails.
\<close>

unbundle bit_operations_syntax

section \<open>Definitions\<close>

datatype Opcode = Continuation | Text | Binary | Close | Ping | Pong

fun opcode_val :: "Opcode \<Rightarrow> byte" where
  "opcode_val Continuation = 0x0"
| "opcode_val Text = 0x1"
| "opcode_val Binary = 0x2"
| "opcode_val Close = 0x8"
| "opcode_val Ping = 0x9"
| "opcode_val Pong = 0xA"

record WebSocketFrame =
  fin_bit :: bool
  op_code :: Opcode
  mask_key :: "bytes option"
  payload :: bytes

datatype ParseErrorKind = Incomplete | MalformedFrame

record ParseError =
  parse_error_kind :: ParseErrorKind
  parse_error_message :: string

record ParseResult =
  result_frame :: WebSocketFrame
  bytes_consumed :: nat

definition kMaxFramePayload :: nat where
  "kMaxFramePayload = 16 * 1024 * 1024"

definition valid_opcodes :: "(byte \<times> Opcode) list" where
  "valid_opcodes = map (\<lambda>oc. (opcode_val oc, oc)) [Continuation, Text, Binary, Close, Ping, Pong]"

definition be_value :: "bytes \<Rightarrow> nat" where
  "be_value bs = foldl (\<lambda>v b. v * 256 + unat b) 0 bs"

fun be_bytes :: "nat \<Rightarrow> nat \<Rightarrow> bytes" where
  "be_bytes 0 n = []"
| "be_bytes (Suc k) n = be_bytes k (n div 256) @ [of_nat (n mod 256)]"

definition subspan :: "bytes \<Rightarrow> nat \<Rightarrow> nat \<Rightarrow> bytes" where
  "subspan bs pos n = take n (drop pos bs)"

definition apply_mask :: "bytes \<Rightarrow> bytes \<Rightarrow> bytes" where
  "apply_mask key bs = map (\<lambda>i. bs ! i XOR key ! (i mod 4)) [0..<length bs]"

definition incomplete :: "string \<Rightarrow> ParseError + 'a" where
  "incomplete w = Inl \<lparr>parse_error_kind = Incomplete, parse_error_message = w\<rparr>"

definition malformed_frame :: "string \<Rightarrow> ParseError + 'a" where
  "malformed_frame w = Inl \<lparr>parse_error_kind = MalformedFrame, parse_error_message = w\<rparr>"

text \<open>The switch over the 7-bit length: the payload length and the position after the length field.\<close>

definition payload_length :: "bytes \<Rightarrow> nat \<Rightarrow> ParseError + (nat \<times> nat)" where
  "payload_length bs payload_len =
     (if payload_len = 126 then
        (if 2 + 2 > length bs
         then incomplete ''Frame header incomplete: missing 2-byte extended length field''
         else Inr (be_value (subspan bs 2 2), 4))
      else if payload_len = 127 then
        (if 2 + 8 > length bs
         then incomplete ''Frame header incomplete: missing 8-byte extended length field''
         else
           let len = be_value (subspan bs 2 8) in
           if drop_bit 63 len \<noteq> 0
           then malformed_frame ''Malformed frame: 64-bit length has MSB set''
           else Inr (len, 10))
      else Inr (payload_len, 2))"

text \<open>The checks after the length field and the payload.\<close>

definition frame_body :: "bytes \<Rightarrow> bool \<Rightarrow> Opcode \<Rightarrow> bool \<Rightarrow> nat \<Rightarrow> nat \<Rightarrow> ParseError + ParseResult" where
  "frame_body bs fin opcode mask_bit actual_payload_len pos0 =
     (if opcode_val opcode \<ge> 0x8 \<and> (\<not> fin \<or> actual_payload_len > 125)
      then malformed_frame ''Malformed frame: invalid control frame''
      else if actual_payload_len > kMaxFramePayload
      then malformed_frame (''Frame payload of '' @ show_nat actual_payload_len @ '' bytes exceeds limit'')
      else if mask_bit \<and> pos0 + 4 > length bs
      then incomplete ''Frame header incomplete: missing 4-byte masking key''
      else
        let mask = (if mask_bit then Some (subspan bs pos0 4) else None);
            pos = (if mask_bit then pos0 + 4 else pos0) in
        if actual_payload_len > length bs - pos
        then incomplete ''Frame payload incomplete: received fewer bytes than indicated by length field''
        else
          let view = subspan bs pos actual_payload_len in
          Inr \<lparr>result_frame =
                 \<lparr>fin_bit = fin, op_code = opcode, mask_key = mask,
                  payload = (case mask of None \<Rightarrow> view | Some key \<Rightarrow> apply_mask key view)\<rparr>,
               bytes_consumed = pos + actual_payload_len\<rparr>)"

definition frame_parser :: "bytes \<Rightarrow> ParseError + ParseResult" where
  "frame_parser bs =
     (if bs = [] then incomplete ''No bytes available to parse''
      else if length bs < 2 then incomplete ''Frame header incomplete: only 1 byte received''
      else
        let byte0 = bs ! 0;
            fin = (byte0 AND 0x80 \<noteq> 0);
            raw_opcode = byte0 AND 0x0F in
        case map_of valid_opcodes raw_opcode of
          None \<Rightarrow> malformed_frame (''Malformed frame: unrecognized opcode 0x0'' @ [hex_char (unat raw_opcode)])
        | Some opcode \<Rightarrow>
           (if byte0 AND 0x70 \<noteq> 0 then malformed_frame ''Malformed frame: reserved bits set''
            else
              let byte1 = bs ! 1;
                  mask_bit = (byte1 AND 0x80 \<noteq> 0);
                  payload_len = unat (byte1 AND 0x7F) in
              case payload_length bs payload_len of
                Inl e \<Rightarrow> Inl e
              | Inr (actual_payload_len, pos) \<Rightarrow> frame_body bs fin opcode mask_bit actual_payload_len pos))"

definition length_field :: "nat \<Rightarrow> bytes" where
  "length_field n =
     (if n \<le> 125 then [0x80 OR of_nat n]
      else if n \<le> 65535 then (0x80 OR 126) # be_bytes 2 n
      else (0x80 OR 127) # be_bytes 8 n)"

definition frame_builder :: "bytes option \<Rightarrow> WebSocketFrame \<Rightarrow> string + bytes" where
  "frame_builder rand frame =
     (case rand of
        None \<Rightarrow> Inl ''Failed to generate masking key''
      | Some key \<Rightarrow>
          Inr ((0x80 OR opcode_val (op_code frame)) # length_field (length (payload frame)) @
               key @ apply_mask key (payload frame)))"

section \<open>Lemmas on the encoding\<close>

lemma be_value_snoc [simp]: "be_value (bs @ [b]) = be_value bs * 256 + unat b" "be_value [] = 0"
  by (simp_all add: be_value_def)

lemma length_be_bytes [simp]: "length (be_bytes k n) = k"
  by (induction k n rule: be_bytes.induct) auto

lemma be_value_be_bytes: "n < 256 ^ k \<Longrightarrow> be_value (be_bytes k n) = n"
proof (induction k n rule: be_bytes.induct)
  case (2 k n)
  then have "n div 256 < 256 ^ k" by (simp add: less_mult_imp_div_less mult.commute)
  with 2 show ?case by (simp add: unat_of_nat)
qed simp

lemma be_value_bound: "be_value bs < 256 ^ length bs"
proof (induction bs rule: rev_induct)
  case (snoc b bs)
  have "unat b < 256" by (rule order.strict_trans2 [OF unsigned_less]) simp
  with snoc show ?case by simp
qed simp

lemma length_apply_mask [simp]: "length (apply_mask key bs) = length bs"
  by (simp add: apply_mask_def)

lemma apply_mask_twice: "apply_mask key (apply_mask key bs) = bs"
  by (rule nth_equalityI) (simp_all add: apply_mask_def xor.assoc)

lemma opcode_decode: "map_of valid_opcodes (opcode_val oc) = Some oc"
  by (cases oc) (simp_all add: valid_opcodes_def)

lemma opcode_byte0:
  "(0x80 OR opcode_val oc) AND 0x80 \<noteq> 0" "(0x80 OR opcode_val oc) AND 0x0F = opcode_val oc"
  "(0x80 OR opcode_val oc) AND 0x70 = 0"
  by (cases oc; simp)+

lemma length_byte1:
  assumes "n < 128"
  shows "((0x80 OR of_nat n) :: byte) AND 0x80 \<noteq> 0" "unat (((0x80 OR of_nat n) :: byte) AND 0x7F) = n"
proof -
  have "((0x80 OR w) :: byte) AND 0x80 = 0x80" for w
    by (rule bit_eqI) (auto simp: bit_simps)
  then show "((0x80 OR of_nat n) :: byte) AND 0x80 \<noteq> 0" by simp
  have m: "(0x7F :: byte) = mask 7" by (simp add: mask_eq_exp_minus_1)
  have "((0x80 OR of_nat n) :: byte) AND 0x7F = take_bit 7 0x80 OR take_bit 7 (of_nat n)"
    unfolding m by (simp only: take_bit_eq_mask [symmetric] take_bit_or)
  also have "\<dots> = of_nat n" using assms by (simp add: take_bit_of_nat take_bit_nat_eq_self)
  finally show "unat (((0x80 OR of_nat n) :: byte) AND 0x7F) = n" using assms by (simp add: unat_of_nat)
qed

section \<open>The parser on a growing buffer\<close>

definition frame_outcome :: "bytes \<Rightarrow> (string, WebSocketFrame) outcome" where
  "frame_outcome bs =
     (case frame_parser bs of
        Inr r \<Rightarrow> Accept (result_frame r) (bytes_consumed r)
      | Inl e \<Rightarrow> (case parse_error_kind e of Incomplete \<Rightarrow> NeedMore | MalformedFrame \<Rightarrow> Reject (parse_error_message e)))"

definition decided :: "ParseError + 'a \<Rightarrow> bool" where
  "decided r \<longleftrightarrow> (case r of Inl e \<Rightarrow> parse_error_kind e = MalformedFrame | Inr _ \<Rightarrow> True)"

lemma decided_simps [simp]:
  "\<not> decided (incomplete w)" "decided (malformed_frame w)" "decided (Inr r)"
  by (simp_all add: decided_def incomplete_def malformed_frame_def)

lemma subspan_append: "pos + n \<le> length bs \<Longrightarrow> subspan (bs @ cs) pos n = subspan bs pos n"
  by (simp add: subspan_def)

lemma subspan_take: "pos + n \<le> m \<Longrightarrow> subspan (take m bs) pos n = subspan bs pos n"
  by (simp add: subspan_def drop_take min_def)

lemma payload_length_stable:
  "decided (payload_length bs l) \<Longrightarrow> payload_length (bs @ cs) l = payload_length bs l"
  by (auto simp: payload_length_def Let_def subspan_append split: if_splits)

lemma frame_body_stable:
  "decided (frame_body bs fin oc mb len pos) \<Longrightarrow> pos \<le> length bs \<Longrightarrow>
     frame_body (bs @ cs) fin oc mb len pos = frame_body bs fin oc mb len pos"
  by (cases mb) (auto simp: frame_body_def Let_def subspan_append split: if_splits)

lemma payload_length_pos:
  "payload_length bs l = Inr (len, pos) \<Longrightarrow> 2 \<le> length bs \<Longrightarrow> 2 \<le> pos \<and> pos \<le> length bs \<and> pos \<le> 10"
  by (auto simp: payload_length_def Let_def incomplete_def malformed_frame_def split: if_splits)

lemma decided_Inl: "decided (Inl e :: ParseError + 'a) = decided (Inl e :: ParseError + 'b)"
  by (simp add: decided_def)

lemma frame_parser_long:
  assumes "2 \<le> length bs"
  shows "frame_parser bs =
    (case map_of valid_opcodes (bs ! 0 AND 0x0F) of
       None \<Rightarrow> malformed_frame (''Malformed frame: unrecognized opcode 0x0'' @ [hex_char (unat (bs ! 0 AND 0x0F))])
     | Some opcode \<Rightarrow>
        (if bs ! 0 AND 0x70 \<noteq> 0 then malformed_frame ''Malformed frame: reserved bits set''
         else case payload_length bs (unat (bs ! 1 AND 0x7F)) of
           Inl e \<Rightarrow> Inl e
         | Inr (n, pos) \<Rightarrow> frame_body bs (bs ! 0 AND 0x80 \<noteq> 0) opcode (bs ! 1 AND 0x80 \<noteq> 0) n pos))"
proof -
  have "bs \<noteq> []" "\<not> length bs < 2" using assms by auto
  then show ?thesis unfolding frame_parser_def Let_def by simp
qed

lemma decided_long: "decided (frame_parser bs) \<Longrightarrow> 2 \<le> length bs"
  by (simp add: frame_parser_def split: if_splits)

lemma frame_parser_stable:
  assumes "decided (frame_parser bs)"
  shows "frame_parser (bs @ cs) = frame_parser bs"
proof -
  note len = decided_long [OF assms]
  then have len': "2 \<le> length (bs @ cs)" and nth: "(bs @ cs) ! 0 = bs ! 0" "(bs @ cs) ! 1 = bs ! 1"
    by (auto simp: nth_append)
  let ?pl = "payload_length bs (unat (bs ! 1 AND 0x7F))"
  consider (early) "map_of valid_opcodes (bs ! 0 AND 0x0F) = None \<or> bs ! 0 AND 0x70 \<noteq> 0"
    | (late) oc where "map_of valid_opcodes (bs ! 0 AND 0x0F) = Some oc" "bs ! 0 AND 0x70 = 0" by fastforce
  then show ?thesis
  proof cases
    case early
    then show ?thesis unfolding frame_parser_long [OF len] frame_parser_long [OF len'] nth
      by (auto split: option.split)
  next
    case late
    note fp = assms [unfolded frame_parser_long [OF len]]
    have d: "decided ?pl"
      using fp late by (cases ?pl) (simp_all add: decided_def)
    note s = payload_length_stable [OF d, of cs]
    show ?thesis unfolding frame_parser_long [OF len] frame_parser_long [OF len'] nth s
      using fp late frame_body_stable payload_length_pos [OF _ len] by (auto split: sum.split)
  qed
qed

text \<open>What an accepted frame consists of.\<close>

lemma frame_parser_InrE:
  assumes "frame_parser bs = Inr r"
  obtains oc n pos where "2 \<le> length bs" "map_of valid_opcodes (bs ! 0 AND 0x0F) = Some oc" "bs ! 0 AND 0x70 = 0"
    "payload_length bs (unat (bs ! 1 AND 0x7F)) = Inr (n, pos)" "2 \<le> pos" "pos \<le> length bs" "pos \<le> 10"
    "frame_body bs (bs ! 0 AND 0x80 \<noteq> 0) oc (bs ! 1 AND 0x80 \<noteq> 0) n pos = Inr r"
proof -
  have len: "2 \<le> length bs" using assms by (intro decided_long) simp
  note fp = assms [unfolded frame_parser_long [OF len]]
  obtain oc where oc: "map_of valid_opcodes (bs ! 0 AND 0x0F) = Some oc" "bs ! 0 AND 0x70 = 0"
    using fp by (auto simp: malformed_frame_def split: option.split_asm if_split_asm)
  obtain n pos where p: "payload_length bs (unat (bs ! 1 AND 0x7F)) = Inr (n, pos)"
    "frame_body bs (bs ! 0 AND 0x80 \<noteq> 0) oc (bs ! 1 AND 0x80 \<noteq> 0) n pos = Inr r"
    using fp oc by (auto split: sum.split_asm)
  from that [OF len oc p(1) _ _ _ p(2)] payload_length_pos [OF p(1) len] show thesis by blast
qed

lemma frame_body_InrD:
  assumes "frame_body bs fin oc mb n pos = Inr r" and "pos \<le> length bs"
  shows "bytes_consumed r = pos + (if mb then 4 else 0) + n" "bytes_consumed r \<le> length bs"
    "n \<le> kMaxFramePayload" "opcode_val oc \<ge> 0x8 \<Longrightarrow> fin \<and> n \<le> 125"
    "length (payload (result_frame r)) = n" "fin_bit (result_frame r) = fin" "op_code (result_frame r) = oc"
    "mask_key (result_frame r) = (if mb then Some (subspan bs pos 4) else None)"
    "frame_body (take (bytes_consumed r) bs) fin oc mb n pos = Inr r"
  using assms
  by (auto simp: frame_body_def Let_def incomplete_def malformed_frame_def subspan_take length_apply_mask
      subspan_def [of bs "_ + _"] subspan_def [of bs pos n] split: if_splits)

lemma payload_length_take:
  "payload_length bs l = Inr (n, pos) \<Longrightarrow> pos \<le> m \<Longrightarrow> payload_length (take m bs) l = Inr (n, pos)"
  by (auto simp: payload_length_def Let_def incomplete_def malformed_frame_def subspan_take split: if_splits)

lemma frame_parser_exact:
  assumes "frame_parser bs = Inr r"
  shows "frame_parser (take (bytes_consumed r) bs) = Inr r"
proof -
  from assms obtain oc n pos where p: "2 \<le> length bs" "map_of valid_opcodes (bs ! 0 AND 0x0F) = Some oc" "bs ! 0 AND 0x70 = 0"
    "payload_length bs (unat (bs ! 1 AND 0x7F)) = Inr (n, pos)" "2 \<le> pos" "pos \<le> length bs" "pos \<le> 10"
    "frame_body bs (bs ! 0 AND 0x80 \<noteq> 0) oc (bs ! 1 AND 0x80 \<noteq> 0) n pos = Inr r"
    by (rule frame_parser_InrE)
  note b = frame_body_InrD [OF p(8) p(6)]
  let ?bs = "take (bytes_consumed r) bs"
  have "pos \<le> bytes_consumed r" using b(1) by simp
  then have len: "2 \<le> length ?bs" and "?bs ! 0 = bs ! 0" "?bs ! 1 = bs ! 1"
    "payload_length ?bs (unat (bs ! 1 AND 0x7F)) = Inr (n, pos)"
    using p b(2) payload_length_take [OF p(4)] by auto
  with p b(9) show ?thesis by (simp add: frame_parser_long [OF len])
qed

interpretation frames: strict_stream_parser frame_outcome
proof
  fix bs r n cs
  assume "frame_outcome bs = Accept r n"
  then obtain x where x: "frame_parser bs = Inr x" "r = result_frame x" "n = bytes_consumed x"
    by (auto simp: frame_outcome_def split: sum.split_asm ParseErrorKind.split_asm)
  from x(1) show "n \<le> length bs"
    by (rule frame_parser_InrE) (use frame_body_InrD(2) x(3) in blast)
  from frame_parser_stable [of bs cs] x show "frame_outcome (bs @ cs) = Accept r n"
    by (simp add: frame_outcome_def)
  from frame_parser_exact [OF x(1)] x show "frame_outcome (take n bs) = Accept r n"
    by (simp add: frame_outcome_def)
next
  fix bs e cs
  assume a: "frame_outcome bs = Reject e"
  then have "decided (frame_parser bs)"
    by (auto simp: frame_outcome_def decided_def split: sum.split_asm ParseErrorKind.split_asm)
  from frame_parser_stable [OF this, of cs] a show "frame_outcome (bs @ cs) = Reject e"
    by (simp add: frame_outcome_def)
qed

section \<open>Built frames are read back\<close>

lemma length_field_read:
  assumes "n < 2 ^ 63" and bs_def: "bs = b0 # length_field n @ r"
  shows "payload_length bs (unat (bs ! 1 AND 0x7F)) = Inr (n, 1 + length (length_field n))"
    and "bs ! 1 AND 0x80 \<noteq> 0"
proof -
  consider (short) "n \<le> 125" | (medium) "125 < n" "n \<le> 65535" | (long) "65535 < n" by linarith
  then have "payload_length bs (unat (bs ! 1 AND 0x7F)) = Inr (n, 1 + length (length_field n)) \<and> bs ! 1 AND 0x80 \<noteq> 0"
  proof cases
    case short
    then show ?thesis using length_byte1 [of n] by (simp add: bs_def length_field_def payload_length_def)
  next
    case medium
    have v: "be_value (be_bytes 2 n) = n" using medium by (intro be_value_be_bytes) simp
    have "bs = b0 # (0x80 OR of_nat 126) # be_bytes 2 n @ r" using medium by (simp add: bs_def length_field_def)
    with medium v length_byte1 [of 126] show ?thesis
      by (simp add: payload_length_def subspan_def length_field_def)
  next
    case long
    have v: "be_value (be_bytes 8 n) = n" using assms(1) by (intro be_value_be_bytes) simp
    have "bs = b0 # (0x80 OR of_nat 127) # be_bytes 8 n @ r" using long by (simp add: bs_def length_field_def)
    moreover have "drop_bit 63 n = 0" using assms(1) by (simp add: drop_bit_eq_div)
    ultimately show ?thesis using long v length_byte1 [of 127]
      by (simp add: payload_length_def subspan_def length_field_def)
  qed
  then show "payload_length bs (unat (bs ! 1 AND 0x7F)) = Inr (n, 1 + length (length_field n))"
    and "bs ! 1 AND 0x80 \<noteq> 0" by simp_all
qed

lemma frame_body_built:
  assumes "length key = 4" and "opcode_val oc \<ge> 0x8 \<Longrightarrow> length pl \<le> 125" and "length pl \<le> kMaxFramePayload"
  shows "frame_body (hdr @ key @ apply_mask key pl) True oc True (length pl) (length hdr) =
    Inr \<lparr>result_frame = \<lparr>fin_bit = True, op_code = oc, mask_key = Some key, payload = pl\<rparr>,
         bytes_consumed = length (hdr @ key @ apply_mask key pl)\<rparr>"
proof -
  have "subspan (hdr @ key @ apply_mask key pl) (length hdr) 4 = key"
    and "subspan (hdr @ key @ apply_mask key pl) (length hdr + 4) (length pl) = apply_mask key pl"
    using assms(1) by (simp_all add: subspan_def)
  with assms show ?thesis by (auto simp: frame_body_def Let_def apply_mask_twice)
qed

definition sendable :: "WebSocketFrame \<Rightarrow> bool" where
  "sendable f \<longleftrightarrow> length (payload f) \<le> (if opcode_val (op_code f) \<ge> 0x8 then 125 else kMaxFramePayload)"

lemma built_frame_parses:
  assumes "length key = 4" and "sendable f" and "frame_builder (Some key) f = Inr bs"
  shows "frame_parser bs =
    Inr \<lparr>result_frame = \<lparr>fin_bit = True, op_code = op_code f, mask_key = Some key, payload = payload f\<rparr>,
         bytes_consumed = length bs\<rparr>"
proof -
  let ?n = "length (payload f)" and ?b0 = "0x80 OR opcode_val (op_code f)"
  let ?m = "key @ apply_mask key (payload f)"
  have bs: "bs = ?b0 # length_field ?n @ ?m" using assms(3) by (simp add: frame_builder_def)
  have len: "2 \<le> length bs" using assms(1) by (simp add: bs)
  have le: "?n \<le> kMaxFramePayload" and ctl: "opcode_val (op_code f) \<ge> 0x8 \<Longrightarrow> ?n \<le> 125"
    using assms(2) by (auto simp: sendable_def kMaxFramePayload_def split: if_splits)
  then have n: "?n < 2 ^ 63" by (simp add: kMaxFramePayload_def)
  note lf = length_field_read [OF n bs]
  have body: "frame_body bs True (op_code f) True ?n (1 + length (length_field ?n)) =
    Inr \<lparr>result_frame = \<lparr>fin_bit = True, op_code = op_code f, mask_key = Some key, payload = payload f\<rparr>,
         bytes_consumed = length bs\<rparr>"
    using frame_body_built [of key "op_code f" "payload f" "?b0 # length_field ?n"] assms(1) ctl le by (simp add: bs)
  have b0: "bs ! 0 = ?b0" by (simp add: bs)
  show ?thesis
    unfolding frame_parser_long [OF len] lf(1) b0 opcode_byte0(2) opcode_decode
    using lf(2) body opcode_byte0(1,3) [of "op_code f"] by simp
qed

lemma accepted_frame:
  assumes "frame_parser bs = Inr r"
  shows "2 \<le> bytes_consumed r \<and> bytes_consumed r \<le> length bs \<and>
    length (payload (result_frame r)) \<le> kMaxFramePayload \<and>
    bytes_consumed r \<le> length (payload (result_frame r)) + 14 \<and>
    (op_code (result_frame r) \<in> {Close, Ping, Pong} \<longrightarrow>
       fin_bit (result_frame r) \<and> length (payload (result_frame r)) \<le> 125)"
proof -
  from assms obtain oc n pos where p: "2 \<le> pos" "pos \<le> length bs" "pos \<le> 10"
    "frame_body bs (bs ! 0 AND 0x80 \<noteq> 0) oc (bs ! 1 AND 0x80 \<noteq> 0) n pos = Inr r"
    by (rule frame_parser_InrE)
  note b = frame_body_InrD [OF p(4,2)]
  have "opcode_val oc \<ge> 0x8" if "oc \<in> {Close, Ping, Pong}" using that by auto
  with b p show ?thesis by auto
qed

lemma control_payload:
  "frame_parser bs = Inr r \<Longrightarrow> op_code (result_frame r) = Ping \<Longrightarrow> length (payload (result_frame r)) \<le> 125"
  using accepted_frame by blast

section \<open>Properties\<close>

text \<open>
  C18. What \<open>frame_builder\<close> writes, \<open>frame_parser\<close> reads: for a control frame of at most 125 payload
  bytes or a data frame of at most 16 MiB, whatever the masking key and whatever bytes follow in
  the buffer, the parser returns the opcode and the unmasked payload and consumes exactly the
  bytes built, and on every proper prefix of them it reports \<open>Incomplete\<close>.
\<close>

theorem frame_roundtrip:
  assumes "length key = 4" and "sendable f" and "frame_builder (Some key) f = Inr bs"
  shows "frame_parser (bs @ rest) =
      Inr \<lparr>result_frame = \<lparr>fin_bit = True, op_code = op_code f, mask_key = Some key, payload = payload f\<rparr>,
           bytes_consumed = length bs\<rparr> \<and>
    (\<forall>m < length bs. frame_outcome (take m bs) = NeedMore)"
proof -
  note p = built_frame_parses [OF assms]
  then have "frame_outcome bs =
      Accept \<lparr>fin_bit = True, op_code = op_code f, mask_key = Some key, payload = payload f\<rparr> (length bs)"
    by (simp add: frame_outcome_def)
  from frames.prefix_needs_more [OF this] p frame_parser_stable [of bs rest] show ?thesis by simp
qed

definition sample_ping :: WebSocketFrame where
  "sample_ping = \<lparr>fin_bit = True, op_code = Ping, mask_key = None, payload = [1, 2, 3]\<rparr>"

theorem frame_roundtrip_witness:
  "\<exists>bs. frame_builder (Some [9, 8, 7, 6]) sample_ping = Inr bs \<and> length bs = 9 \<and>
     frame_parser (bs @ [0]) =
       Inr \<lparr>result_frame = \<lparr>fin_bit = True, op_code = Ping, mask_key = Some [9, 8, 7, 6], payload = [1, 2, 3]\<rparr>,
            bytes_consumed = 9\<rparr> \<and> frame_outcome (take 8 bs) = NeedMore"
proof -
  obtain bs where bs: "frame_builder (Some [9, 8, 7, 6]) sample_ping = Inr bs"
    by (simp add: frame_builder_def)
  then have len: "length bs = 9" by (auto simp: frame_builder_def sample_ping_def length_field_def)
  have "sendable sample_ping" by (simp add: sendable_def sample_ping_def)
  from frame_roundtrip [OF _ this bs, of "[0]"] bs len show ?thesis by (auto simp: sample_ping_def)
qed

text \<open>
  C26. What an accepted frame looks like: the frame lies within the received bytes and is at least two
  bytes long, its payload is at most 16 MiB, and a close, ping or pong frame has the FIN bit and at
  most 125 payload bytes.
\<close>

theorem frame_parser_bounds:
  assumes "frame_parser bs = Inr r"
  shows "2 \<le> bytes_consumed r \<and> bytes_consumed r \<le> length bs \<and>
    length (payload (result_frame r)) \<le> kMaxFramePayload \<and>
    bytes_consumed r \<le> length (payload (result_frame r)) + 14 \<and>
    (op_code (result_frame r) \<in> {Close, Ping, Pong} \<longrightarrow>
       fin_bit (result_frame r) \<and> length (payload (result_frame r)) \<le> 125)"
  using assms by (rule accepted_frame)

theorem frame_parser_bounds_witness:
  "\<exists>r. frame_parser [0x89, 0x01, 0x2A] = Inr r \<and> bytes_consumed r \<le> 3 \<and> op_code (result_frame r) = Ping \<and>
     length (payload (result_frame r)) \<le> kMaxFramePayload"
proof -
  have "frame_parser [0x89, 0x01, 0x2A] =
      Inr \<lparr>result_frame = \<lparr>fin_bit = True, op_code = Ping, mask_key = None, payload = [0x2A]\<rparr>, bytes_consumed = 3\<rparr>"
    by (simp add: frame_parser_long valid_opcodes_def payload_length_def frame_body_def subspan_def kMaxFramePayload_def)
  with frame_parser_bounds [OF this] show ?thesis by simp
qed

end
