(* ===== verification/Web_Socket.thy ===== *)
theory Web_Socket
  imports Frames Kalshi_Auth
begin

text \<open>
  \<open>include/web_socket.hpp\<close> and \<open>src/network/web_socket.cpp\<close>: the opening handshake and the exchange
  of frames over the WebSocket's own TLS connection. The base64 encoder of OpenSSL
  (\<open>EVP_EncodeBlock\<close>) is the argument \<open>encode_block\<close>. The state is the receive buffer; the socket
  is part of the world.
\<close>

section \<open>Definitions\<close>

definition kWebSocketPath :: string where
  "kWebSocketPath = ''/trade-api/ws/v2''"

record WebSocket =
  ws_buffer :: bytes

definition WebSocket_init :: WebSocket where
  "WebSocket_init = \<lparr>ws_buffer = []\<rparr>"

definition generate_websocket_key :: "(bytes \<Rightarrow> string) \<Rightarrow> (string + string) io" where
  "generate_websocket_key encode_block =
     io_bind (rand_bytes 16) (\<lambda>raw.
     io_return
       (case raw of
          None \<Rightarrow> Inl ''Failed to generate random bytes for WebSocket key''
        | Some bs \<Rightarrow> Inr (encode_block bs)))"

definition upgrade_request :: "string \<Rightarrow> string \<Rightarrow> string \<Rightarrow> string" where
  "upgrade_request host websocket_key auth =
     ''GET '' @ kWebSocketPath @ '' HTTP/1.1'' @ [CR, LF] @
     ''Host: '' @ host @ [CR, LF] @
     ''Upgrade: websocket'' @ [CR, LF] @
     ''Connection: Upgrade'' @ [CR, LF] @
     ''Sec-WebSocket-Key: '' @ websocket_key @ [CR, LF] @
     ''Sec-WebSocket-Version: 13'' @ [CR, LF] @
     auth @ [CR, LF]"

fun first_line :: "string \<Rightarrow> string" where
  "first_line [] = []"
| "first_line (c # cs) = (if c = CR \<and> cs \<noteq> [] \<and> hd cs = LF then [] else c # first_line cs)"

definition check_handshake :: "string \<Rightarrow> string + unit" where
  "check_handshake response =
     (if \<not> starts_with response ''HTTP/1.1 101''
      then Inl (''Handshake rejected: '' @ first_line response)
      else Inr ())"

definition ws_connect :: "(bytes \<Rightarrow> string) \<Rightarrow> string \<Rightarrow> string \<Rightarrow> string \<Rightarrow> (string + unit) io" where
  "ws_connect encode_block host port kid =
     io_bind (auth_headers kid ''GET'' kWebSocketPath) (\<lambda>auth.
     case auth of Inl e \<Rightarrow> io_return (Inl e) | Inr headers \<Rightarrow>
     io_bind (tls_connect WsSock host port) (\<lambda>tls_result.
     case tls_result of Inl e \<Rightarrow> io_return (Inl (''TLS connection failed '' @ e)) | Inr _ \<Rightarrow>
     io_bind (generate_websocket_key encode_block) (\<lambda>key_result.
     case key_result of Inl e \<Rightarrow> io_return (Inl e) | Inr websocket_key \<Rightarrow>
     io_bind (tls_send WsSock (upgrade_request host websocket_key headers)) (\<lambda>send_result.
     case send_result of Inl e \<Rightarrow> io_return (Inl (''Failed to send data '' @ e)) | Inr _ \<Rightarrow>
     io_bind (tls_receive WsSock) (\<lambda>receive_result.
     case receive_result of Inl e \<Rightarrow> io_return (Inl (''Failed to receive data '' @ e)) | Inr response \<Rightarrow>
     io_return (check_handshake response))))))"

function receive_frame :: "WebSocket \<Rightarrow> ((string + WebSocketFrame) \<times> WebSocket) io" where
  "receive_frame ws w =
     (case frame_parser (ws_buffer ws) of
        Inr result \<Rightarrow>
          Some ((Inr (result_frame result), ws\<lparr>ws_buffer := drop (bytes_consumed result) (ws_buffer ws)\<rparr>), w)
      | Inl err \<Rightarrow>
          if parse_error_kind err = MalformedFrame then Some ((Inl (parse_error_message err), ws), w)
          else
           (case tls_receive WsSock w of
              None \<Rightarrow> None
            | Some (Inl e, w') \<Rightarrow> Some ((Inl e, ws), w')
            | Some (Inr raw_bytes, w') \<Rightarrow> receive_frame (ws\<lparr>ws_buffer := ws_buffer ws @ bytes_of raw_bytes\<rparr>) w'))"
  by pat_completeness auto
termination
  by (relation "measure (\<lambda>(ws, w). length (answers w))") (auto dest: receive_less)

declare receive_frame.simps [simp del]

definition send_frame :: "WebSocketFrame \<Rightarrow> (string + unit) io" where
  "send_frame frame =
     io_bind (rand_bytes 4) (\<lambda>rand.
     case frame_builder rand frame of
       Inl e \<Rightarrow> io_return (Inl e)
     | Inr out_going_frame \<Rightarrow>
         io_bind (tls_send WsSock (text_of out_going_frame)) (\<lambda>send_result.
         io_return (case send_result of Inl e \<Rightarrow> Inl e | Inr _ \<Rightarrow> Inr ())))"

definition send_pong :: "WebSocketFrame \<Rightarrow> (string + unit) io" where
  "send_pong ping_frame =
     send_frame \<lparr>fin_bit = True, op_code = Pong, mask_key = None, payload = payload ping_frame\<rparr>"

definition send_text :: "string \<Rightarrow> (string + unit) io" where
  "send_text s =
     send_frame \<lparr>fin_bit = True, op_code = Text, mask_key = None, payload = bytes_of s\<rparr>"

lemma receive_frame_consumes: "receive_frame ws w = Some (x, w') \<Longrightarrow> consumes w w'"
proof (induction ws w arbitrary: x w' rule: receive_frame.induct)
  case (1 ws w)
  have rcv: "consumes w w1" if "tls_receive WsSock w = Some (r, w1)" for r w1
    using shrinks_consumes [OF shrinks_calls(3) that] .
  from "1.prems" show ?case
    by (cases x) (auto simp: receive_frame.simps [of ws w] split: sum.splits option.splits prod.splits if_splits
        dest: rcv "1.IH" intro: consumes_trans)
qed

lemma shrinks_receive_frame [shrink]: "shrinks (receive_frame ws)"
  using receive_frame_consumes by (auto simp: shrinks_def)

lemma shrinks_send_frame [shrink]: "shrinks (send_frame f)"
  unfolding send_frame_def by (intro shrink)

lemma shrinks_send [shrink]: "shrinks (send_pong f)" "shrinks (send_text s)"
  unfolding send_pong_def send_text_def by (intro shrink)+

lemma shrinks_ws_connect [shrink]: "shrinks (ws_connect encode_block host port kid)"
  unfolding ws_connect_def generate_websocket_key_def by (intro shrink)

section \<open>Receiving is the reading loop of the frame parser\<close>

definition ws_script :: "world \<Rightarrow> byte script" where
  "ws_script w = map (map_sum id bytes_of) (deliveries (answers w))"

text \<open>All bytes not yet taken as frames: those in the buffer and those the socket will deliver before an error.\<close>

definition ws_stream :: "WebSocket \<Rightarrow> world \<Rightarrow> bytes" where
  "ws_stream ws w = ws_buffer ws @ delivered (ws_script w)"

lemma frame_outcome_at:
  "frame_parser bs = Inr x \<Longrightarrow> frame_outcome bs = Accept (result_frame x) (bytes_consumed x)"
  "frame_parser bs = Inl e \<Longrightarrow> parse_error_kind e = MalformedFrame \<Longrightarrow> frame_outcome bs = Reject (parse_error_message e)"
  "frame_parser bs = Inl e \<Longrightarrow> parse_error_kind e \<noteq> MalformedFrame \<Longrightarrow> frame_outcome bs = NeedMore"
  by (cases "parse_error_kind e"; simp add: frame_outcome_def)+

definition frame_result :: "(string + string + WebSocketFrame) \<Rightarrow> string + WebSocketFrame" where
  "frame_result r = (case r of Inl e \<Rightarrow> Inl e | Inr r' \<Rightarrow> r')"

lemma receive_frame_read_until:
  "map_option (\<lambda>((r, ws'), w'). (r, ws', ws_script w')) (receive_frame ws w) =
     map_option (\<lambda>(r, buf, script). (frame_result r, ws\<lparr>ws_buffer := buf\<rparr>, script))
       (read_until frame_outcome (ws_buffer ws) (ws_script w))"
proof (induction ws w rule: receive_frame.induct)
  case (1 ws w)
  note unfold = receive_frame.simps [of ws w] read_until.simps [of frame_outcome "ws_buffer ws"] frame_result_def
    frame_outcome_at
  show ?case
  proof (cases "frame_parser (ws_buffer ws)")
    case (Inr x)
    then show ?thesis by (simp add: unfold)
  next
    case (Inl e)
    show ?thesis
    proof (cases "parse_error_kind e = MalformedFrame")
      case True
      with Inl show ?thesis by (simp add: unfold)
    next
      case more: False
      show ?thesis
      proof (cases "tls_receive WsSock w")
        case None
        with Inl more receive_blocked [OF None] show ?thesis by (simp add: unfold ws_script_def)
      next
        case (Some rw)
        obtain r w1 where rw: "rw = (r, w1)" by (cases rw)
        from receive_deliveries [of WsSock w r w1] Some rw
        have d: "ws_script w = map_sum id bytes_of r # ws_script w1" by (simp add: ws_script_def)
        show ?thesis
          using Inl more Some rw d "1.IH" [OF Inl more] by (cases r) (simp_all add: unfold)
      qed
    qed
  qed
qed

lemma receive_frame_loop:
  assumes "receive_frame ws w = Some ((r, ws'), w')"
  obtains r0 buf where
    "read_until frame_outcome (ws_buffer ws) (ws_script w) = Some (r0, buf, ws_script w')"
    "r = frame_result r0" "ws' = ws\<lparr>ws_buffer := buf\<rparr>"
  using assms receive_frame_read_until [of ws w] by (auto simp: map_option_case split: option.splits)

lemma receive_frame_finds:
  assumes "frame_outcome (ws_stream ws w) = Accept f n"
  shows "\<exists>ws' w'. receive_frame ws w = Some ((Inr f, ws'), w') \<and> ws_stream ws' w' = drop n (ws_stream ws w)"
proof -
  obtain buf script where "read_until frame_outcome (ws_buffer ws) (ws_script w) = Some (Inr (Inr f), buf, script)"
    "buf @ delivered script = drop n (ws_stream ws w)"
    using frames.read_until_finds assms unfolding ws_stream_def by metis
  with receive_frame_read_until [of ws w] show ?thesis
    by (auto simp: map_option_case frame_result_def ws_stream_def split: option.splits)
qed

text \<open>Several calls of \<open>receive_frame\<close> in a row.\<close>

fun receive_frames :: "nat \<Rightarrow> WebSocket \<Rightarrow> ((string + WebSocketFrame) list \<times> WebSocket) io" where
  "receive_frames 0 ws = io_return ([], ws)"
| "receive_frames (Suc n) ws =
     io_bind (receive_frame ws) (\<lambda>(r, ws1).
     io_bind (receive_frames n ws1) (\<lambda>(rs, ws2).
     io_return (r # rs, ws2)))"

definition encodes :: "bytes \<Rightarrow> WebSocketFrame \<Rightarrow> bool" where
  "encodes bs f \<longleftrightarrow> frame_parser bs = Inr \<lparr>result_frame = f, bytes_consumed = length bs\<rparr>"

lemma encodes_outcome: "encodes bs f \<Longrightarrow> frame_outcome (bs @ rest) = Accept f (length bs)"
  by (rule frames.accept_stable) (simp add: encodes_def frame_outcome_def)

lemma ping_payload:
  assumes "receive_frame ws w = Some ((Inr f, ws'), w1)" and "op_code f = Ping"
  shows "length (payload f) \<le> 125"
proof -
  from assms(1) obtain r0 buf where "read_until frame_outcome (ws_buffer ws) (ws_script w) = Some (r0, buf, ws_script w1)"
    "Inr f = frame_result r0" by (rule receive_frame_loop)
  then obtain n where "frame_outcome (ws_buffer ws @ delivered (ws_script w)) = Accept f n"
    using frames.read_until_accept by (fastforce simp: frame_result_def split: sum.splits)
  then obtain x where "frame_parser (ws_buffer ws @ delivered (ws_script w)) = Inr x" "result_frame x = f"
    by (auto simp: frame_outcome_def split: sum.splits ParseErrorKind.splits)
  with control_payload assms(2) show ?thesis by blast
qed

lemma send_frame_wp:
  "io_wp (send_frame f)
     (\<lambda>r w'. \<exists>rand es. trace w' = trace w @ (CallRandom 4, AnsRandom rand) # es \<and>
        (case rand of
           None \<Rightarrow> es = [] \<and> r = Inl ''Failed to generate masking key''
         | Some key \<Rightarrow> \<exists>bs a. frame_builder (Some key) f = Inr bs \<and> es = [(CallSend WsSock (text_of bs), AnsSend a)] \<and>
             r = (case a of Inl e \<Rightarrow> Inl e | Inr _ \<Rightarrow> Inr ()))) w"
  unfolding send_frame_def wp_bind
proof (rule wp)
  fix rand and w1 :: world
  assume t: "trace w1 = trace w @ [(CallRandom 4, AnsRandom rand)]"
  show "io_wp (case frame_builder rand f of Inl e \<Rightarrow> io_return (Inl e)
      | Inr out \<Rightarrow> io_bind (tls_send WsSock (text_of out))
          (\<lambda>send_result. io_return (case send_result of Inl e \<Rightarrow> Inl e | Inr _ \<Rightarrow> Inr ())))
     (\<lambda>r w'. \<exists>rand es. trace w' = trace w @ (CallRandom 4, AnsRandom rand) # es \<and>
        (case rand of
           None \<Rightarrow> es = [] \<and> r = Inl ''Failed to generate masking key''
         | Some key \<Rightarrow> \<exists>bs a. frame_builder (Some key) f = Inr bs \<and> es = [(CallSend WsSock (text_of bs), AnsSend a)] \<and>
             r = (case a of Inl e \<Rightarrow> Inl e | Inr _ \<Rightarrow> Inr ()))) w1"
    using t by (cases rand) (auto intro!: wp simp: wp frame_builder_def)
qed

definition accepted :: "(bytes \<Rightarrow> string) \<Rightarrow> string \<Rightarrow> string \<Rightarrow> string \<Rightarrow> world \<Rightarrow> world \<Rightarrow> bool" where
  "accepted encode_block host port kid w w' \<longleftrightarrow>
    (\<exists>ms s raw n response.
      trace w' = trace w @
        [(CallWallClock, AnsTime ms), (CallSign (show_int ms @ ''GET'' @ kWebSocketPath), AnsSign (Inr s)),
         (CallConnect WsSock host port, AnsConnect (Inr ())), (CallRandom 16, AnsRandom (Some raw)),
         (CallSend WsSock (upgrade_request host (encode_block raw) (access_headers kid s (show_int ms))), AnsSend (Inr n)),
         (CallReceive WsSock, AnsReceive (Inr response))] \<and>
      starts_with response ''HTTP/1.1 101'')"

lemma ws_connect_wp:
  "io_wp (ws_connect encode_block host port kid) (\<lambda>r w'. r = Inr () \<longrightarrow> accepted encode_block host port kid w w') w"
  unfolding ws_connect_def generate_websocket_key_def check_handshake_def wp_bind
  by (rule io_wp_mono [OF auth_headers_ok])
    (auto intro!: wp simp: wp accepted_def split: sum.splits option.splits)

section \<open>Properties\<close>

text \<open>
  C10. Every frame arrives, in order: if the bytes received so far and those the network delivers are
  the encodings of a sequence of frames, then as many calls of \<open>receive_frame\<close> return exactly these
  frames, wherever the network cut the stream, and leave the rest of the stream to be read.
\<close>

theorem receive_frames_all:
  assumes "list_all2 encodes encs fs" and "ws_stream ws w = concat encs @ rest"
  shows "\<exists>ws' w'. receive_frames (length fs) ws w = Some ((map Inr fs, ws'), w') \<and> ws_stream ws' w' = rest"
  using assms
proof (induction encs fs arbitrary: ws w rule: list_all2_induct)
  case Nil
  then show ?case by (simp add: io_return_def)
next
  case (Cons e encs f fs)
  from Cons.prems have "frame_outcome (ws_stream ws w) = Accept f (length e)"
    using encodes_outcome [OF Cons.hyps(1)] by simp
  then obtain ws1 w1 where one: "receive_frame ws w = Some ((Inr f, ws1), w1)"
    "ws_stream ws1 w1 = drop (length e) (ws_stream ws w)"
    using receive_frame_finds by blast
  with Cons.IH [of ws1 w1] Cons.prems show ?case by (auto simp: io_bind_def io_return_def)
qed


text \<open>
  C36. A ping can always be answered: a control frame that was received is short enough to be sent
  back, so when the masking key has its four bytes, \<open>send_pong\<close> hands the network one frame that
  decodes to a final, masked pong with the payload of the ping.
\<close>

theorem send_pong_echoes:
  assumes "receive_frame ws w = Some ((Inr f, ws'), w1)" and "op_code f = Ping"
    and "send_pong f w1 = Some (r, w2)" and "trace w2 = trace w1 @ (CallRandom 4, AnsRandom (Some key)) # es"
    and "length key = 4"
  shows "\<exists>bs a. es = [(CallSend WsSock (text_of bs), AnsSend a)] \<and> r = (case a of Inl e \<Rightarrow> Inl e | Inr _ \<Rightarrow> Inr ()) \<and>
    encodes bs \<lparr>fin_bit = True, op_code = Pong, mask_key = Some key, payload = payload f\<rparr>"
proof -
  let ?pong = "\<lparr>fin_bit = True, op_code = Pong, mask_key = None, payload = payload f\<rparr>"
  have "length (payload f) \<le> 125" using ping_payload [OF assms(1,2)] .
  then have s: "sendable ?pong" by (simp add: sendable_def)
  obtain bs where bs: "frame_builder (Some key) ?pong = Inr bs" by (simp add: frame_builder_def)
  from built_frame_parses [OF assms(5) s bs]
  have "encodes bs \<lparr>fin_bit = True, op_code = Pong, mask_key = Some key, payload = payload f\<rparr>"
    by (simp add: encodes_def)
  moreover have "\<exists>a. es = [(CallSend WsSock (text_of bs), AnsSend a)] \<and> r = (case a of Inl e \<Rightarrow> Inl e | Inr _ \<Rightarrow> Inr ())"
    using io_wpD [OF send_frame_wp, of ?pong w1 r w2] assms(3,4) bs by (auto simp: send_pong_def)
  ultimately show ?thesis by blast
qed

text \<open>
  The handshake succeeds only if the server accepted it: the request that was signed for
  this path was sent on a connection opened to the given host, with a fresh key of sixteen random
  bytes, and the first bytes of the answer are those of a 101 response.
\<close>

theorem ws_connect_accepted:
  assumes "ws_connect encode_block host port kid w = Some (Inr (), w')"
  shows "\<exists>ms s raw n response.
    trace w' = trace w @
      [(CallWallClock, AnsTime ms), (CallSign (show_int ms @ ''GET'' @ kWebSocketPath), AnsSign (Inr s)),
       (CallConnect WsSock host port, AnsConnect (Inr ())), (CallRandom 16, AnsRandom (Some raw)),
       (CallSend WsSock (upgrade_request host (encode_block raw) (access_headers kid s (show_int ms))), AnsSend (Inr n)),
       (CallReceive WsSock, AnsReceive (Inr response))] \<and>
    starts_with response ''HTTP/1.1 101''"
  using io_wpD [OF ws_connect_wp assms] by (simp add: accepted_def)

definition sample_ping_bytes :: bytes where
  "sample_ping_bytes = [0x89, 0x01, 0x2A]"

definition sample_ping_frame :: WebSocketFrame where
  "sample_ping_frame = \<lparr>fin_bit = True, op_code = Ping, mask_key = None, payload = [0x2A]\<rparr>"

lemma sample_ping_encodes: "encodes sample_ping_bytes sample_ping_frame"
  by (simp add: encodes_def sample_ping_bytes_def sample_ping_frame_def frame_parser_long valid_opcodes_def
      payload_length_def frame_body_def subspan_def kMaxFramePayload_def)

definition pings_in_pieces :: world where
  "pings_in_pieces = \<lparr>answers =
     [AnsReceive (Inr (text_of [0x89])), AnsReceive (Inr (text_of [0x01, 0x2A, 0x89, 0x01])),
      AnsReceive (Inr (text_of [0x2A])), AnsRandom (Some [1, 2, 3, 4]), AnsSend (Inr 7)], trace = []\<rparr>"

lemma pings_in_pieces_stream: "ws_stream WebSocket_init pings_in_pieces = concat [sample_ping_bytes, sample_ping_bytes] @ []"
  by (simp add: ws_stream_def WebSocket_init_def pings_in_pieces_def ws_script_def sample_ping_bytes_def)

theorem receive_frames_all_witness:
  "\<exists>ws' w'. receive_frames 2 WebSocket_init pings_in_pieces =
     Some (([Inr sample_ping_frame, Inr sample_ping_frame], ws'), w') \<and> ws_stream ws' w' = []"
  using receive_frames_all [of "[sample_ping_bytes, sample_ping_bytes]" "[sample_ping_frame, sample_ping_frame]"
      WebSocket_init pings_in_pieces "[]"] pings_in_pieces_stream sample_ping_encodes
  by (simp add: numeral_2_eq_2)

theorem send_pong_echoes_witness:
  "\<exists>ws' w1 w2 bs. receive_frame \<lparr>ws_buffer = sample_ping_bytes\<rparr>
       \<lparr>answers = [AnsRandom (Some [1, 2, 3, 4]), AnsSend (Inr 7)], trace = []\<rparr> = Some ((Inr sample_ping_frame, ws'), w1) \<and>
     send_pong sample_ping_frame w1 = Some (Inr (), w2) \<and>
     trace w2 = [(CallRandom 4, AnsRandom (Some [1, 2, 3, 4])), (CallSend WsSock (text_of bs), AnsSend (Inr 7))] \<and>
     encodes bs \<lparr>fin_bit = True, op_code = Pong, mask_key = Some [1, 2, 3, 4], payload = [0x2A]\<rparr>"
proof -
  let ?w = "\<lparr>answers = [AnsRandom (Some [1, 2, 3, 4]), AnsSend (Inr 7)], trace = []\<rparr>"
  have rcv: "receive_frame \<lparr>ws_buffer = sample_ping_bytes\<rparr> ?w = Some ((Inr sample_ping_frame, \<lparr>ws_buffer = []\<rparr>), ?w)"
    using sample_ping_encodes by (simp add: receive_frame.simps encodes_def)
  have ping: "op_code sample_ping_frame = Ping" by (simp add: sample_ping_frame_def)
  obtain w2 es where snd: "send_pong sample_ping_frame ?w = Some (Inr (), w2)"
    "trace w2 = trace ?w @ (CallRandom 4, AnsRandom (Some [1, 2, 3, 4])) # es" "length es = 1" "snd (hd es) = AnsSend (Inr 7)"
    by (simp add: send_pong_def send_frame_def frame_builder_def io_bind_def calls ask_def io_return_def)
  from send_pong_echoes [OF rcv ping snd(1,2)] rcv snd show ?thesis
    by (auto simp: sample_ping_frame_def)
qed

theorem ws_connect_accepted_witness:
  "\<exists>w'. ws_connect (\<lambda>bs. ''key'') ''h'' ''443'' ''id'' \<lparr>answers =
       [AnsTime 5, AnsSign (Inr ''sig''), AnsConnect (Inr ()), AnsRandom (Some (replicate 16 0)), AnsSend (Inr 9),
        AnsReceive (Inr ''HTTP/1.1 101 Switching Protocols'')], trace = []\<rparr> = Some (Inr (), w') \<and>
     (\<exists>response. last (trace w') = (CallReceive WsSock, AnsReceive (Inr response)) \<and> starts_with response ''HTTP/1.1 101'')"
proof -
  let ?w = "\<lparr>answers =
       [AnsTime 5, AnsSign (Inr ''sig''), AnsConnect (Inr ()), AnsRandom (Some (replicate 16 0)), AnsSend (Inr 9),
        AnsReceive (Inr ''HTTP/1.1 101 Switching Protocols'')], trace = []\<rparr>"
  have "\<exists>w'. ws_connect (\<lambda>bs. ''key'') ''h'' ''443'' ''id'' ?w = Some (Inr (), w')"
    by (simp add: ws_connect_def auth_headers_def current_timestamp_ms_def generate_websocket_key_def check_handshake_def
        starts_with_def io_bind_def io_return_def [abs_def] calls ask_def)
  then obtain w' where run: "ws_connect (\<lambda>bs. ''key'') ''h'' ''443'' ''id'' ?w = Some (Inr (), w')" by blast
  from ws_connect_accepted [OF run] run show ?thesis by auto
qed

end
