(* ===== verification/Messages.thy ===== *)
theory Messages
  imports Prelude
begin

text \<open>
  \<open>include/kalshi_messages.hpp\<close>: the typed messages the decoders produce, and the order
  request and response of the REST interface. A \<open>std::variant\<close> is a datatype with one
  constructor per alternative. The uint64 and uint32 fields are naturals; the decoders
  bound them.
\<close>

type_synonym PriceLevel = "string \<times> string"

record OrderBookSnapshot =
  snap_market_ticker :: string
  snap_market_id :: string
  yes_dollars_fp :: "PriceLevel list"
  no_dollars_fp :: "PriceLevel list"

record OrderBookDelta =
  delta_market_ticker :: string
  delta_market_id :: string
  price_dollars :: string
  delta_fp :: string
  delta_side :: string
  delta_ts :: string
  delta_ts_ms :: nat

datatype FillAction = Buy | Sell

record Fill =
  fill_order_id :: string
  fill_market_ticker :: string
  count_fp :: string
  fill_action :: FillAction

datatype Payload =
    MsgNone
  | MsgSnapshot OrderBookSnapshot
  | MsgDelta OrderBookDelta
  | MsgFill Fill

record Message =
  msg_type :: string
  msg_sid :: nat
  msg_seq :: nat
  msg_payload :: Payload

datatype OrderSide = Bid | Ask
datatype TimeInForce = FillOrKill | GoodTillCanceled | ImmediateOrCancel
datatype SelfTradePrevention = TakerAtCross | Maker

record OrderRequest =
  req_ticker :: string
  req_side :: OrderSide
  req_count :: string
  req_price :: string
  req_time_in_force :: TimeInForce
  req_self_trade_prevention :: SelfTradePrevention
  req_client_order_id :: string
  req_post_only :: bool

record OrderResponse =
  resp_order_id :: string
  resp_fill_count :: string
  resp_remaining_count :: string
  resp_ts_ms :: nat
  resp_client_order_id :: string

end
