(* ===== verification/Kalshi_Messages.thy ===== *)
theory Kalshi_Messages
  imports Json_Parser Messages
begin

text \<open>
  \<open>src/protocol/kalshi_messages.cpp\<close>: decoding of WebSocket messages and order responses from
  a JSON tree, printing of a JSON tree, and the order request body.
  Error texts are those of the source.
\<close>

section \<open>Reading fields of an object\<close>

abbreviation SQ :: string where "SQ \<equiv> [CHR 0x27]"

definition get_string :: "JsonObject \<Rightarrow> string \<Rightarrow> string option" where
  "get_string obj key = (case map_of obj key of Some (JString s) \<Rightarrow> Some s | _ \<Rightarrow> None)"

definition get_object :: "JsonObject \<Rightarrow> string \<Rightarrow> JsonObject option" where
  "get_object obj key = (case map_of obj key of Some (JObject o') \<Rightarrow> Some o' | _ \<Rightarrow> None)"

definition get_array :: "JsonObject \<Rightarrow> string \<Rightarrow> JsonArray option" where
  "get_array obj key = (case map_of obj key of Some (JArray a) \<Rightarrow> Some a | _ \<Rightarrow> None)"

definition get_uint64 :: "JsonObject \<Rightarrow> string \<Rightarrow> nat option" where
  "get_uint64 obj key =
     (case map_of obj key of
        Some (JString s) \<Rightarrow>
          (case from_chars UINT64_MAX s of
             Some (value, rest) \<Rightarrow> if rest = [] then Some value else None
           | None \<Rightarrow> None)
      | _ \<Rightarrow> None)"

definition to_uint32 :: "nat \<Rightarrow> nat" where
  "to_uint32 n = n mod 2 ^ 32"

fun side_string :: "OrderSide \<Rightarrow> string" where
  "side_string Bid = ''bid''"
| "side_string Ask = ''ask''"

fun tif_string :: "TimeInForce \<Rightarrow> string" where
  "tif_string FillOrKill = ''fill_or_kill''"
| "tif_string GoodTillCanceled = ''good_till_canceled''"
| "tif_string ImmediateOrCancel = ''immediate_or_cancel''"

fun stp_string :: "SelfTradePrevention \<Rightarrow> string" where
  "stp_string Maker = ''maker''"
| "stp_string TakerAtCross = ''taker_at_cross''"

section \<open>Messages from a JSON tree\<close>

definition parse_delta :: "JsonObject \<Rightarrow> string + OrderBookDelta" where
  "parse_delta msg_obj =
     (case (get_string msg_obj ''market_ticker'', get_string msg_obj ''market_id'',
            get_string msg_obj ''price_dollars'', get_string msg_obj ''delta_fp'',
            get_string msg_obj ''side'', get_string msg_obj ''ts'', get_uint64 msg_obj ''ts_ms'') of
        (Some ticker, Some market_id, Some price, Some delta, Some side, Some ts, Some ts_ms) \<Rightarrow>
          Inr \<lparr>delta_market_ticker = ticker, delta_market_id = market_id, price_dollars = price,
               delta_fp = delta, delta_side = side, delta_ts = ts, delta_ts_ms = ts_ms\<rparr>
      | _ \<Rightarrow> Inl ''Invalid Key'')"

fun price_levels_loop :: "JsonArray \<Rightarrow> PriceLevel list \<Rightarrow> string + PriceLevel list" where
  "price_levels_loop [] levels = Inr levels"
| "price_levels_loop (item # items) levels =
     (case item of
        JArray [val1, val2] \<Rightarrow>
          (case (val1, val2) of
             (JString str1, JString str2) \<Rightarrow> price_levels_loop items (levels @ [(str1, str2)])
           | _ \<Rightarrow> Inl ''Price levels contain non-string data'')
      | _ \<Rightarrow> Inl ''Price level is not a 2-element array'')"

definition parse_price_levels :: "JsonArray \<Rightarrow> string + PriceLevel list" where
  "parse_price_levels json_array = price_levels_loop json_array []"

definition parse_snapshot :: "JsonObject \<Rightarrow> string + OrderBookSnapshot" where
  "parse_snapshot msg_obj =
     (case (get_string msg_obj ''market_ticker'', get_string msg_obj ''market_id'') of
        (Some ticker, Some market_id) \<Rightarrow>
          (case (case get_array msg_obj ''yes_dollars_fp'' of
                   None \<Rightarrow> Inr [] | Some arr \<Rightarrow> parse_price_levels arr) of
             Inl e \<Rightarrow> Inl e
           | Inr yes_levels \<Rightarrow>
          (case (case get_array msg_obj ''no_dollars_fp'' of
                   None \<Rightarrow> Inr [] | Some arr \<Rightarrow> parse_price_levels arr) of
             Inl e \<Rightarrow> Inl e
           | Inr no_levels \<Rightarrow>
               Inr \<lparr>snap_market_ticker = ticker, snap_market_id = market_id,
                    yes_dollars_fp = yes_levels, no_dollars_fp = no_levels\<rparr>))
      | _ \<Rightarrow> Inl ''Missing required fields in snapshot'')"

definition parse_fill_action :: "string \<Rightarrow> string + FillAction" where
  "parse_fill_action a =
     (if a = ''buy'' then Inr Buy
      else if a = ''sell'' then Inr Sell
      else Inl (''Unknown action: '' @ a))"

definition parse_fill :: "JsonObject \<Rightarrow> string + Fill" where
  "parse_fill msg_obj =
     (case get_string msg_obj ''action'' of
        None \<Rightarrow> Inl ''Missing action field''
      | Some action_str \<Rightarrow>
     (case parse_fill_action action_str of
        Inl e \<Rightarrow> Inl e
      | Inr action \<Rightarrow>
     (case (get_string msg_obj ''order_id'', get_string msg_obj ''market_ticker'',
            get_string msg_obj ''count_fp'') of
        (Some oid, Some ticker, Some cnt) \<Rightarrow>
          Inr \<lparr>fill_order_id = oid, fill_market_ticker = ticker, count_fp = cnt, fill_action = action\<rparr>
      | _ \<Rightarrow> Inl ''Missing fields in order response'')))"

definition value_or_zero :: "nat option \<Rightarrow> nat" where
  "value_or_zero v = (case v of None \<Rightarrow> 0 | Some n \<Rightarrow> n)"

definition parse_kalshi_message :: "JsonValue \<Rightarrow> string + Message" where
  "parse_kalshi_message json =
     (case json of
        JObject root_obj \<Rightarrow>
          (case get_string root_obj ''type'' of
             None \<Rightarrow> Inl (''Missing or invalid '' @ SQ @ ''type'' @ SQ @ '' field'')
           | Some ty \<Rightarrow>
               let sid = to_uint32 (value_or_zero (get_uint64 root_obj ''sid''));
                   seq = to_uint32 (value_or_zero (get_uint64 root_obj ''seq''));
                   make = (\<lambda>payload. \<lparr>msg_type = ty, msg_sid = sid, msg_seq = seq, msg_payload = payload\<rparr>)
               in
               if ty = ''subscribed'' then Inr (make MsgNone)
               else
                 case get_object root_obj ''msg'' of
                   None \<Rightarrow> Inl (''Missing '' @ SQ @ ''msg'' @ SQ @ '' object in '' @ SQ @ ty @ SQ @ '' message'')
                 | Some msg_obj \<Rightarrow>
                     if ty = ''orderbook_delta'' then map_sum id (make \<circ> MsgDelta) (parse_delta msg_obj)
                     else if ty = ''orderbook_snapshot'' then map_sum id (make \<circ> MsgSnapshot) (parse_snapshot msg_obj)
                     else if ty = ''fill'' then map_sum id (make \<circ> MsgFill) (parse_fill msg_obj)
                     else Inl (''Unknown message type: '' @ ty))
      | _ \<Rightarrow> Inl ''Root JSON is not an object'')"

section \<open>Printing\<close>

definition show_hex4 :: "nat \<Rightarrow> string" where
  "show_hex4 n = [hex_char (n div 4096 mod 16), hex_char (n div 256 mod 16),
                  hex_char (n div 16 mod 16), hex_char (n mod 16)]"

definition quote_char :: "char \<Rightarrow> string" where
  "quote_char c =
     (if c = DQUOTE then [BACKSLASH, DQUOTE]
      else if c = BACKSLASH then [BACKSLASH, BACKSLASH]
      else if c = LF then [BACKSLASH, CHR ''n'']
      else if c = CR then [BACKSLASH, CHR ''r'']
      else if c = TAB then [BACKSLASH, CHR ''t'']
      else if code c < 0x20 then [BACKSLASH, CHR ''u''] @ show_hex4 (code c)
      else [c])"

definition json_quote :: "string \<Rightarrow> string" where
  "json_quote s = [DQUOTE] @ concat (map quote_char s) @ [DQUOTE]"

definition comma_join :: "string list \<Rightarrow> string" where
  "comma_join xss = concat (map (\<lambda>(i, x). (if i \<noteq> 0 then '','' else []) @ x) (enumerate 0 xss))"

fun to_json_string :: "JsonValue \<Rightarrow> string" where
  "to_json_string JNull = ''null''"
| "to_json_string (JBool b) = (if b then ''true'' else ''false'')"
| "to_json_string (JString s) = json_quote s"
| "to_json_string (JArray vs) = ''['' @ comma_join (map to_json_string vs) @ '']''"
| "to_json_string (JObject ms) =
     [CHR 0x7B] @ comma_join (map (\<lambda>(k, v). json_quote k @ '':'' @ to_json_string v) ms) @ [CHR 0x7D]"

section \<open>Orders\<close>

definition parse_order_response :: "JsonValue \<Rightarrow> string + OrderResponse" where
  "parse_order_response json =
     (case json of
        JObject root_obj \<Rightarrow>
          (case (get_string root_obj ''order_id'', get_string root_obj ''fill_count'',
                 get_string root_obj ''remaining_count'', get_uint64 root_obj ''ts_ms'') of
             (Some oid, Some fill, Some remaining, Some ts_ms) \<Rightarrow>
               Inr \<lparr>resp_order_id = oid, resp_fill_count = fill, resp_remaining_count = remaining,
                    resp_ts_ms = ts_ms,
                    resp_client_order_id =
                      (case get_string root_obj ''client_order_id'' of None \<Rightarrow> [] | Some c \<Rightarrow> c)\<rparr>
           | _ \<Rightarrow>
               let body = to_json_string json in
               Inl (''Unexpected order response: '' @
                    (if length body > 1000 then take 1000 body @ ''...'' else body)))
      | _ \<Rightarrow> Inl ''Root JSON is not an object'')"

definition quoted :: "string \<Rightarrow> string" where
  "quoted s = [DQUOTE] @ s @ [DQUOTE]"

definition serialize_order_request :: "OrderRequest \<Rightarrow> string" where
  "serialize_order_request order =
     [CHR 0x7B] @ quoted ''ticker'' @ '':'' @ quoted (req_ticker order) @
     '','' @ quoted ''side'' @ '':'' @ quoted (side_string (req_side order)) @
     '','' @ quoted ''count'' @ '':'' @ quoted (req_count order) @
     '','' @ quoted ''price'' @ '':'' @ quoted (req_price order) @
     '','' @ quoted ''time_in_force'' @ '':'' @ quoted (tif_string (req_time_in_force order)) @
     '','' @ quoted ''self_trade_prevention_type'' @ '':'' @ quoted (stp_string (req_self_trade_prevention order)) @
     '','' @ quoted ''post_only'' @ '':'' @ (if req_post_only order then ''true'' else ''false'') @
     '','' @ quoted ''client_order_id'' @ '':'' @ quoted (req_client_order_id order) @ [CHR 0x7D]"

end
