(* ===== verification/Kalshi_Decoder.thy ===== *)
theory Kalshi_Decoder
  imports Kalshi_Messages
begin

text \<open>
  \<open>src/protocol/kalshi_decoder.cpp\<close>: the decoder of WebSocket payloads that works on the token
  stream without building a tree, and the fallback to the tree path.

  The member \<open>needs_fallback\<close> of \<open>Decoder\<close> is set only where \<open>next\<close> meets an escaped string,
  and the error returned there is passed up unchanged, so the flag is the second component of the
  error value. A callback that mutates \<open>Fields\<close> is a function from the old to the new fields.
  Views into the payload are strings. Loops and nesting carry the same budgets as in
  \<open>Json_Parser\<close>.
\<close>

section \<open>Definitions\<close>

record Scalar =
  sc_seen :: bool
  sc_value :: "string option"

record LevelsField =
  lf_seen :: bool
  lf_present :: bool
  lf_valid :: bool
  lf_levels :: "PriceLevel list"

record Fields =
  f_type :: Scalar
  f_sid :: Scalar
  f_seq :: Scalar
  f_msg_seen :: bool
  f_msg_is_object :: bool
  f_market_ticker :: Scalar
  f_market_id :: Scalar
  f_price_dollars :: Scalar
  f_delta_fp :: Scalar
  f_side :: Scalar
  f_ts :: Scalar
  f_ts_ms :: Scalar
  f_order_id :: Scalar
  f_count_fp :: Scalar
  f_action :: Scalar
  f_yes :: LevelsField
  f_no :: LevelsField

definition Scalar_init :: Scalar where
  "Scalar_init = \<lparr>sc_seen = False, sc_value = None\<rparr>"

definition LevelsField_init :: LevelsField where
  "LevelsField_init = \<lparr>lf_seen = False, lf_present = False, lf_valid = True, lf_levels = []\<rparr>"

definition Fields_init :: Fields where
  "Fields_init =
     \<lparr>f_type = Scalar_init, f_sid = Scalar_init, f_seq = Scalar_init,
      f_msg_seen = False, f_msg_is_object = False,
      f_market_ticker = Scalar_init, f_market_id = Scalar_init, f_price_dollars = Scalar_init,
      f_delta_fp = Scalar_init, f_side = Scalar_init, f_ts = Scalar_init, f_ts_ms = Scalar_init,
      f_order_id = Scalar_init, f_count_fp = Scalar_init, f_action = Scalar_init,
      f_yes = LevelsField_init, f_no = LevelsField_init\<rparr>"

text \<open>An error and \<open>needs_fallback\<close>, or a result and the lexer after it.\<close>

type_synonym decode_error = "json_error \<times> bool"
type_synonym 'a dec = "decode_error + ('a \<times> JsonLexer)"

definition parse_u64 :: "string \<Rightarrow> nat option" where
  "parse_u64 s =
     (case from_chars UINT64_MAX s of
        Some (value, rest) \<Rightarrow> if rest = [] then Some value else None
      | None \<Rightarrow> None)"

definition is_text :: "TokenType \<Rightarrow> bool" where
  "is_text t \<longleftrightarrow> t = String_tok \<or> t = Number_tok"

definition dec_fail :: "string \<Rightarrow> JsonLexer \<Rightarrow> 'a dec" where
  "dec_fail w lx = Inl (JsonError w (lx_pos lx), False)"

definition dec_next :: "JsonLexer \<Rightarrow> Token dec" where
  "dec_next lx =
     (case next_token lx of
        Inl e \<Rightarrow> Inl (e, False)
      | Inr (token, lx') \<Rightarrow>
          if tok_type token = String_tok \<and> has_escapes token
          then Inl (JsonError ''escaped string; falling back'' (lx_pos lx'), True)
          else Inr (token, lx'))"

fun members_loop ::
  "nat \<Rightarrow> (string \<Rightarrow> Token \<Rightarrow> 's \<Rightarrow> JsonLexer \<Rightarrow> 's dec) \<Rightarrow> Token \<Rightarrow> 's \<Rightarrow> JsonLexer \<Rightarrow> 's dec" where
  "members_loop 0 f token st lx = Inl (OutOfFuel, False)"
| "members_loop (Suc fuel) f token st lx =
     (if tok_type token \<noteq> String_tok then dec_fail ''Expected string key in object'' lx
      else
       (case dec_next lx of
          Inl e \<Rightarrow> Inl e
        | Inr (colon, lx1) \<Rightarrow>
            if tok_type colon \<noteq> Colon
            then dec_fail (''Expected '' @ [CHR 0x27] @ '':'' @ [CHR 0x27] @ '' after object key'') lx1
            else
       (case dec_next lx1 of
          Inl e \<Rightarrow> Inl e
        | Inr (value, lx2) \<Rightarrow>
       (case f (tok_text token) value st lx2 of
          Inl e \<Rightarrow> Inl e
        | Inr (st', lx3) \<Rightarrow>
       (case dec_next lx3 of
          Inl e \<Rightarrow> Inl e
        | Inr (sep, lx4) \<Rightarrow>
            if tok_type sep = RightBrace then Inr (st', lx4)
            else if tok_type sep \<noteq> Comma
            then dec_fail (''Expected '' @ [CHR 0x27] @ '','' @ [CHR 0x27] @ '' or '' @
                   [CHR 0x27, CHR 0x7D, CHR 0x27] @ '' after object value'') lx4
            else
       (case dec_next lx4 of
          Inl e \<Rightarrow> Inl e
        | Inr (token', lx5) \<Rightarrow> members_loop fuel f token' st' lx5))))))"

definition for_each_member ::
  "(string \<Rightarrow> Token \<Rightarrow> 's \<Rightarrow> JsonLexer \<Rightarrow> 's dec) \<Rightarrow> 's \<Rightarrow> JsonLexer \<Rightarrow> 's dec" where
  "for_each_member f st lx =
     (case dec_next lx of
        Inl e \<Rightarrow> Inl e
      | Inr (token, lx1) \<Rightarrow>
          if tok_type token = RightBrace then Inr (st, lx1)
          else members_loop (loop_budget lx) f token st lx1)"

fun elements_loop ::
  "nat \<Rightarrow> (Token \<Rightarrow> 's \<Rightarrow> JsonLexer \<Rightarrow> 's dec) \<Rightarrow> Token \<Rightarrow> 's \<Rightarrow> JsonLexer \<Rightarrow> 's dec" where
  "elements_loop 0 f token st lx = Inl (OutOfFuel, False)"
| "elements_loop (Suc fuel) f token st lx =
     (case f token st lx of
        Inl e \<Rightarrow> Inl e
      | Inr (st', lx1) \<Rightarrow>
     (case dec_next lx1 of
        Inl e \<Rightarrow> Inl e
      | Inr (sep, lx2) \<Rightarrow>
          if tok_type sep = RightBracket then Inr (st', lx2)
          else if tok_type sep \<noteq> Comma
          then dec_fail (''Expected '' @ [CHR 0x27] @ '','' @ [CHR 0x27] @ '' or '' @
                 [CHR 0x27] @ '']'' @ [CHR 0x27] @ '' after array value'') lx2
          else
     (case dec_next lx2 of
        Inl e \<Rightarrow> Inl e
      | Inr (token', lx3) \<Rightarrow> elements_loop fuel f token' st' lx3)))"

definition for_each_element ::
  "(Token \<Rightarrow> 's \<Rightarrow> JsonLexer \<Rightarrow> 's dec) \<Rightarrow> 's \<Rightarrow> JsonLexer \<Rightarrow> 's dec" where
  "for_each_element f st lx =
     (case dec_next lx of
        Inl e \<Rightarrow> Inl e
      | Inr (token, lx1) \<Rightarrow>
          if tok_type token = RightBracket then Inr (st, lx1)
          else elements_loop (loop_budget lx) f token st lx1)"

fun skip_levels :: "nat \<Rightarrow> Token \<Rightarrow> nat \<Rightarrow> JsonLexer \<Rightarrow> unit dec" where
  "skip_levels levels first depth lx =
     (case tok_type first of
        String_tok \<Rightarrow> Inr ((), lx)
      | Number_tok \<Rightarrow> Inr ((), lx)
      | True_tok \<Rightarrow> Inr ((), lx)
      | False_tok \<Rightarrow> Inr ((), lx)
      | Null_tok \<Rightarrow> Inr ((), lx)
      | LeftBrace \<Rightarrow>
          if depth \<ge> kMaxJsonDepth then dec_fail ''JSON nested too deeply'' lx
          else (case levels of
                  0 \<Rightarrow> Inl (OutOfFuel, False)
                | Suc n \<Rightarrow> for_each_member (\<lambda>_ v _. skip_levels n v (depth + 1)) () lx)
      | LeftBracket \<Rightarrow>
          if depth \<ge> kMaxJsonDepth then dec_fail ''JSON nested too deeply'' lx
          else (case levels of
                  0 \<Rightarrow> Inl (OutOfFuel, False)
                | Suc n \<Rightarrow> for_each_element (\<lambda>v _. skip_levels n v (depth + 1)) () lx)
      | End \<Rightarrow> dec_fail ''Unexpected end of JSON'' lx
      | _ \<Rightarrow> dec_fail ''Unexpected token in value position'' lx)"

declare skip_levels.simps [simp del]

definition skip_value :: "Token \<Rightarrow> nat \<Rightarrow> JsonLexer \<Rightarrow> unit dec" where
  "skip_value first depth = skip_levels (kMaxJsonDepth - depth) first depth"

text \<open>\<open>r\<close> with its result stored by \<open>upd\<close>; a status without a result keeps the fields.\<close>

definition store :: "('a \<Rightarrow> 'b) \<Rightarrow> 'a dec \<Rightarrow> 'b dec" where
  "store upd r = (case r of Inl e \<Rightarrow> Inl e | Inr (x, lx) \<Rightarrow> Inr (upd x, lx))"

definition scalar :: "Scalar \<Rightarrow> Token \<Rightarrow> nat \<Rightarrow> JsonLexer \<Rightarrow> Scalar dec" where
  "scalar field value depth lx =
     (if \<not> sc_seen field \<and> is_text (tok_type value)
      then Inr (field\<lparr>sc_seen := True, sc_value := Some (tok_text value)\<rparr>, lx)
      else store (\<lambda>_. field\<lparr>sc_seen := True\<rparr>) (skip_value value depth lx))"

record LevelPair =
  lp_first :: string
  lp_second :: string
  lp_count :: nat
  lp_all_text :: bool

definition level_part :: "Token \<Rightarrow> nat \<Rightarrow> LevelPair \<Rightarrow> JsonLexer \<Rightarrow> LevelPair dec" where
  "level_part x dd st lx =
     (if is_text (tok_type x) then
        Inr (st\<lparr>lp_first := (if lp_count st = 0 then tok_text x else lp_first st),
                lp_second := (if lp_count st = 1 then tok_text x else lp_second st),
                lp_count := lp_count st + 1\<rparr>, lx)
      else store (\<lambda>_. st\<lparr>lp_all_text := False, lp_count := lp_count st + 1\<rparr>) (skip_value x dd lx))"

definition level_element :: "Token \<Rightarrow> nat \<Rightarrow> LevelsField \<Rightarrow> JsonLexer \<Rightarrow> LevelsField dec" where
  "level_element element d field lx =
     (if tok_type element \<noteq> LeftBracket
      then store (\<lambda>_. field\<lparr>lf_valid := False\<rparr>) (skip_value element d lx)
      else if d \<ge> kMaxJsonDepth then dec_fail ''JSON nested too deeply'' lx
      else
        store (\<lambda>p. if lp_count p = 2 \<and> lp_all_text p
                   then field\<lparr>lf_levels := lf_levels field @ [(lp_first p, lp_second p)]\<rparr>
                   else field\<lparr>lf_valid := False\<rparr>)
          (for_each_element (\<lambda>x. level_part x (d + 1))
             \<lparr>lp_first = [], lp_second = [], lp_count = 0, lp_all_text = True\<rparr> lx))"

definition levels :: "LevelsField \<Rightarrow> Token \<Rightarrow> nat \<Rightarrow> JsonLexer \<Rightarrow> LevelsField dec" where
  "levels field value depth lx =
     (if lf_seen field \<or> tok_type value \<noteq> LeftBracket
      then store (\<lambda>_. field\<lparr>lf_seen := True\<rparr>) (skip_value value depth lx)
      else if depth \<ge> kMaxJsonDepth then dec_fail ''JSON nested too deeply'' lx
      else for_each_element (\<lambda>element. level_element element (depth + 1))
             (field\<lparr>lf_seen := True, lf_present := True\<rparr>) lx)"

definition msg_member :: "string \<Rightarrow> Token \<Rightarrow> nat \<Rightarrow> Fields \<Rightarrow> JsonLexer \<Rightarrow> Fields dec" where
  "msg_member key value depth f lx =
     (if key = ''market_ticker'' then store (\<lambda>x. f\<lparr>f_market_ticker := x\<rparr>) (scalar (f_market_ticker f) value depth lx)
      else if key = ''market_id'' then store (\<lambda>x. f\<lparr>f_market_id := x\<rparr>) (scalar (f_market_id f) value depth lx)
      else if key = ''price_dollars'' then store (\<lambda>x. f\<lparr>f_price_dollars := x\<rparr>) (scalar (f_price_dollars f) value depth lx)
      else if key = ''delta_fp'' then store (\<lambda>x. f\<lparr>f_delta_fp := x\<rparr>) (scalar (f_delta_fp f) value depth lx)
      else if key = ''side'' then store (\<lambda>x. f\<lparr>f_side := x\<rparr>) (scalar (f_side f) value depth lx)
      else if key = ''ts'' then store (\<lambda>x. f\<lparr>f_ts := x\<rparr>) (scalar (f_ts f) value depth lx)
      else if key = ''ts_ms'' then store (\<lambda>x. f\<lparr>f_ts_ms := x\<rparr>) (scalar (f_ts_ms f) value depth lx)
      else if key = ''order_id'' then store (\<lambda>x. f\<lparr>f_order_id := x\<rparr>) (scalar (f_order_id f) value depth lx)
      else if key = ''count_fp'' then store (\<lambda>x. f\<lparr>f_count_fp := x\<rparr>) (scalar (f_count_fp f) value depth lx)
      else if key = ''action'' then store (\<lambda>x. f\<lparr>f_action := x\<rparr>) (scalar (f_action f) value depth lx)
      else if key = ''yes_dollars_fp'' then store (\<lambda>x. f\<lparr>f_yes := x\<rparr>) (levels (f_yes f) value depth lx)
      else if key = ''no_dollars_fp'' then store (\<lambda>x. f\<lparr>f_no := x\<rparr>) (levels (f_no f) value depth lx)
      else store (\<lambda>_. f) (skip_value value depth lx))"

definition root_member :: "string \<Rightarrow> Token \<Rightarrow> nat \<Rightarrow> Fields \<Rightarrow> JsonLexer \<Rightarrow> Fields dec" where
  "root_member key value depth f lx =
     (if key = ''type'' then store (\<lambda>x. f\<lparr>f_type := x\<rparr>) (scalar (f_type f) value depth lx)
      else if key = ''sid'' then store (\<lambda>x. f\<lparr>f_sid := x\<rparr>) (scalar (f_sid f) value depth lx)
      else if key = ''seq'' then store (\<lambda>x. f\<lparr>f_seq := x\<rparr>) (scalar (f_seq f) value depth lx)
      else if key = ''msg'' \<and> \<not> f_msg_seen f then
        (if tok_type value = LeftBrace then
           (if depth \<ge> kMaxJsonDepth then dec_fail ''JSON nested too deeply'' lx
            else for_each_member (\<lambda>k v. msg_member k v (depth + 1))
                   (f\<lparr>f_msg_seen := True, f_msg_is_object := True\<rparr>) lx)
         else store (\<lambda>_. f\<lparr>f_msg_seen := True\<rparr>) (skip_value value depth lx))
      else store (\<lambda>_. f) (skip_value value depth lx))"

definition decode :: "string \<Rightarrow> decode_error + Fields" where
  "decode bytes =
     (case dec_next (JsonLexer_init bytes) of
        Inl e \<Rightarrow> Inl e
      | Inr (first, lx1) \<Rightarrow>
          if tok_type first \<noteq> LeftBrace then
            (case skip_value first 0 lx1 of
               Inl e \<Rightarrow> Inl e
             | Inr (_, lx2) \<Rightarrow>
            (case dec_next lx2 of
               Inl e \<Rightarrow> Inl e
             | Inr (last_tok, lx3) \<Rightarrow>
                 if tok_type last_tok \<noteq> End
                 then Inl (JsonError ''Trailing characters after JSON value'' (lx_pos lx3), False)
                 else Inl (JsonError ''Root JSON is not an object'' (lx_pos lx3), False)))
          else
            (case for_each_member (\<lambda>k v. root_member k v 1) Fields_init lx1 of
               Inl e \<Rightarrow> Inl e
             | Inr (f, lx2) \<Rightarrow>
            (case dec_next lx2 of
               Inl e \<Rightarrow> Inl e
             | Inr (last_tok, lx3) \<Rightarrow>
                 if tok_type last_tok \<noteq> End
                 then Inl (JsonError ''Trailing characters after JSON value'' (lx_pos lx3), False)
                 else Inr f)))"

definition build_delta :: "Fields \<Rightarrow> string + OrderBookDelta" where
  "build_delta f =
     (case (sc_value (f_market_ticker f), sc_value (f_market_id f), sc_value (f_price_dollars f),
            sc_value (f_delta_fp f), sc_value (f_side f), sc_value (f_ts f),
            Option.bind (sc_value (f_ts_ms f)) parse_u64) of
        (Some ticker, Some market_id, Some price, Some delta, Some side, Some ts, Some ts_ms) \<Rightarrow>
          Inr \<lparr>delta_market_ticker = ticker, delta_market_id = market_id, price_dollars = price,
               delta_fp = delta, delta_side = side, delta_ts = ts, delta_ts_ms = ts_ms\<rparr>
      | _ \<Rightarrow> Inl ''Invalid Key'')"

definition to_levels :: "PriceLevel list \<Rightarrow> PriceLevel list" where
  "to_levels views = foldl (\<lambda>out (price, qty). out @ [(price, qty)]) [] views"

lemma to_levels_id [simp]: "to_levels views = views"
proof -
  have "foldl (\<lambda>out (price, qty). out @ [(price, qty)]) acc views = acc @ views" for acc
    by (induction views arbitrary: acc) auto
  then show ?thesis by (simp add: to_levels_def)
qed

definition build_snapshot :: "Fields \<Rightarrow> string + OrderBookSnapshot" where
  "build_snapshot f =
     (case (sc_value (f_market_ticker f), sc_value (f_market_id f)) of
        (Some ticker, Some market_id) \<Rightarrow>
          if (lf_present (f_yes f) \<and> \<not> lf_valid (f_yes f)) \<or> (lf_present (f_no f) \<and> \<not> lf_valid (f_no f))
          then Inl ''Malformed price level''
          else Inr \<lparr>snap_market_ticker = ticker, snap_market_id = market_id,
                    yes_dollars_fp = (if lf_present (f_yes f) then to_levels (lf_levels (f_yes f)) else []),
                    no_dollars_fp = (if lf_present (f_no f) then to_levels (lf_levels (f_no f)) else [])\<rparr>
      | _ \<Rightarrow> Inl ''Missing required fields in snapshot'')"

definition build_fill :: "Fields \<Rightarrow> string + Fill" where
  "build_fill f =
     (case sc_value (f_action f) of
        None \<Rightarrow> Inl ''Missing action field''
      | Some action_str \<Rightarrow>
     (case parse_fill_action action_str of
        Inl e \<Rightarrow> Inl e
      | Inr action \<Rightarrow>
     (case (sc_value (f_order_id f), sc_value (f_market_ticker f), sc_value (f_count_fp f)) of
        (Some oid, Some ticker, Some cnt) \<Rightarrow>
          Inr \<lparr>fill_order_id = oid, fill_market_ticker = ticker, count_fp = cnt, fill_action = action\<rparr>
      | _ \<Rightarrow> Inl ''Missing fields in fill'')))"

definition build :: "Fields \<Rightarrow> string + Message" where
  "build f =
     (case sc_value (f_type f) of
        None \<Rightarrow> Inl (''Missing or invalid '' @ SQ @ ''type'' @ SQ @ '' field'')
      | Some ty \<Rightarrow>
          let sid = to_uint32 (value_or_zero (Option.bind (sc_value (f_sid f)) parse_u64));
              seq = to_uint32 (value_or_zero (Option.bind (sc_value (f_seq f)) parse_u64));
              make = (\<lambda>payload. \<lparr>msg_type = ty, msg_sid = sid, msg_seq = seq, msg_payload = payload\<rparr>)
          in
          if ty = ''subscribed'' then Inr (make MsgNone)
          else if \<not> f_msg_is_object f then Inl (''Missing '' @ SQ @ ''msg'' @ SQ @ '' object'')
          else if ty = ''orderbook_delta'' then map_sum id (make \<circ> MsgDelta) (build_delta f)
          else if ty = ''orderbook_snapshot'' then map_sum id (make \<circ> MsgSnapshot) (build_snapshot f)
          else if ty = ''fill'' then map_sum id (make \<circ> MsgFill) (build_fill f)
          else Inl (''Unknown message type: '' @ ty))"

definition decode_kalshi_message :: "string \<Rightarrow> string + Message" where
  "decode_kalshi_message bytes =
     (case decode bytes of
        Inl (e, needs_fallback) \<Rightarrow>
          if \<not> needs_fallback then Inl (message e)
          else (case parse_json bytes of Inl e \<Rightarrow> Inl e | Inr v \<Rightarrow> parse_kalshi_message v)
      | Inr f \<Rightarrow> build f)"

end
