(* ===== verification/Fixed_Point.thy ===== *)
theory Fixed_Point
  imports Prelude
begin

text \<open>
  \<open>include/fixed_point.hpp\<close>: \<open>parse_fixed<Scale>\<close> reads a decimal string such as
  \<open>0.2900\<close> into an integer scaled by \<open>10^Scale\<close> with integer arithmetic only.

  \<open>fixed_loop\<close> is the character loop, \<open>scale_up\<close> the loop that supplies missing
  fraction digits. The specification is independent of both: \<open>decimal_literal\<close> says which strings
  are decimal numbers and \<open>decimal_rat\<close> is the rational number such a string denotes.
\<close>

section \<open>Definitions\<close>

fun fixed_loop :: "nat \<Rightarrow> string \<Rightarrow> int \<Rightarrow> nat \<Rightarrow> nat \<Rightarrow> bool \<Rightarrow> (int \<times> nat \<times> nat) option" where
  "fixed_loop Scale [] value digits frac_digits seen_point = Some (value, digits, frac_digits)"
| "fixed_loop Scale (c # s) value digits frac_digits seen_point =
    (if c = CHR ''.'' then
       (if seen_point then None else fixed_loop Scale s value digits frac_digits True)
     else if \<not> is_digit c then None
     else if seen_point \<and> frac_digits = Scale then
       (if c \<noteq> CHR ''0'' then None
        else fixed_loop Scale s value (digits + 1) frac_digits seen_point)
     else
       (let digit = int (digit_val c) in
        if value > (INT64_MAX - digit) div 10 then None
        else fixed_loop Scale s (value * 10 + digit) (digits + 1)
               (if seen_point then frac_digits + 1 else frac_digits) seen_point))"

function scale_up :: "nat \<Rightarrow> nat \<Rightarrow> int \<Rightarrow> int option" where
  "scale_up Scale frac_digits value =
    (if frac_digits < Scale then
       (if value > INT64_MAX div 10 then None
        else scale_up Scale (frac_digits + 1) (value * 10))
     else Some value)"
  by pat_completeness auto
termination
  by (relation "measure (\<lambda>(Scale, frac_digits, value). Scale - frac_digits)") auto

declare scale_up.simps [simp del]

definition parse_fixed :: "nat \<Rightarrow> string \<Rightarrow> int option" where
  "parse_fixed Scale s =
    (case s of
       [] \<Rightarrow> None
     | c # s' \<Rightarrow>
        (let negative = (c = CHR ''-'');
             body = (if negative then s' else s)
         in case fixed_loop Scale body 0 0 0 False of
              None \<Rightarrow> None
            | Some (value, digits, frac_digits) \<Rightarrow>
                if digits = 0 then None
                else (case scale_up Scale frac_digits value of
                        None \<Rightarrow> None
                      | Some v \<Rightarrow> Some (if negative then - v else v))))"

section \<open>Specification\<close>

text \<open>The parts of a decimal string: sign, digits before the point, digits after it.\<close>

definition dec_negative :: "string \<Rightarrow> bool" where
  "dec_negative s \<longleftrightarrow> s \<noteq> [] \<and> hd s = CHR ''-''"

definition dec_body :: "string \<Rightarrow> string" where
  "dec_body s = (if dec_negative s then tl s else s)"

definition int_part :: "string \<Rightarrow> string" where
  "int_part b = takeWhile (\<lambda>c. c \<noteq> CHR ''.'') b"

definition frac_part :: "string \<Rightarrow> string" where
  "frac_part b = drop 1 (dropWhile (\<lambda>c. c \<noteq> CHR ''.'') b)"

definition decimal_literal :: "string \<Rightarrow> bool" where
  "decimal_literal s \<longleftrightarrow>
     list_all is_digit (int_part (dec_body s) @ frac_part (dec_body s)) \<and>
     int_part (dec_body s) @ frac_part (dec_body s) \<noteq> []"

definition decimal_rat :: "string \<Rightarrow> rat" where
  "decimal_rat s =
     (if dec_negative s then - 1 else 1) *
     (of_nat (digits_val (int_part (dec_body s))) +
      of_nat (digits_val (frac_part (dec_body s))) / 10 ^ length (frac_part (dec_body s)))"

section \<open>The loops compute the exact value\<close>

lemma overflow_guard: "0 \<le> d \<Longrightarrow> (v > (INT64_MAX - d) div 10) = (v * 10 + d > INT64_MAX)"
  by (auto simp: INT64_MAX_def)

lemma scale_up_eq:
  assumes "0 \<le> v"
  shows "scale_up Scale f v =
    (if v * 10 ^ (Scale - f) \<le> INT64_MAX \<or> Scale \<le> f then Some (v * 10 ^ (Scale - f)) else None)"
  using assms
proof (induction Scale f v rule: scale_up.induct)
  case (1 Scale f v)
  show ?case
  proof (cases "f < Scale")
    case True
    then have "Scale - f = Suc (Scale - Suc f)" by simp
    then have pw: "v * 10 ^ (Scale - f) = v * 10 * 10 ^ (Scale - Suc f)"
      by (simp only: power_Suc mult.assoc)
    have guard: "(v > INT64_MAX div 10) = (v * 10 > INT64_MAX)"
      using overflow_guard [of 0 v] by simp
    have unfold: "scale_up Scale f v =
      (if v * 10 > INT64_MAX then None else scale_up Scale (Suc f) (v * 10))"
      using True guard by (simp add: scale_up.simps [of Scale f v])
    have le: "v * 10 \<le> v * 10 * 10 ^ (Scale - Suc f)"
      using "1.prems" by (simp add: mult_le_cancel_left1)
    show ?thesis
    proof (cases "v * 10 > INT64_MAX")
      case big: True
      with le True show ?thesis unfolding unfold pw by simp
    next
      case False
      then have nf: "\<not> v > INT64_MAX div 10" using guard by simp
      from "1.IH" [OF True nf] "1.prems"
      have "scale_up Scale (Suc f) (v * 10) =
        (if v * 10 * 10 ^ (Scale - Suc f) \<le> INT64_MAX \<or> Scale \<le> Suc f
         then Some (v * 10 * 10 ^ (Scale - Suc f)) else None)" by simp
      moreover have "Scale \<le> Suc f \<Longrightarrow> v * 10 * 10 ^ (Scale - Suc f) \<le> INT64_MAX"
        using False by simp
      ultimately show ?thesis using False True unfolding unfold pw by auto
    qed
  next
    case False
    then show ?thesis by (simp add: scale_up.simps [of Scale f v])
  qed
qed

text \<open>The loop after the decimal point: digits up to \<open>Scale\<close> are taken, the rest must be zero.\<close>

definition frac_ok :: "nat \<Rightarrow> string \<Rightarrow> bool" where
  "frac_ok k fr \<longleftrightarrow> list_all is_digit fr \<and> (\<forall>c \<in> set (drop k fr). c = CHR ''0'')"

lemma frac_ok_Nil [simp]: "frac_ok k []"
  by (simp add: frac_ok_def)

lemma frac_ok_Cons_0: "frac_ok 0 (c # fr) \<longleftrightarrow> c = CHR ''0'' \<and> frac_ok 0 fr"
  unfolding frac_ok_def by (cases "c = CHR ''0''") simp_all

lemma frac_ok_Cons_Suc [simp]: "frac_ok (Suc k) (c # fr) \<longleftrightarrow> is_digit c \<and> frac_ok k fr"
  by (auto simp: frac_ok_def)

lemma foldl_digits_ge:
  "0 \<le> v \<Longrightarrow> v \<le> v * 10 ^ length ds + int (digits_val ds)"
  by (simp add: add_increasing2 mult_le_cancel_left1)

lemma digits_val_Cons: "digits_val (c # ds) = digit_val c * 10 ^ length ds + digits_val ds"
  using digits_val_append [of "[c]" ds] by (simp add: digits_val_def)

lemma fixed_loop_frac:
  assumes "f \<le> Scale" "0 \<le> v" "v \<le> INT64_MAX"
  shows "fixed_loop Scale s v d f True =
    (let k = min (Scale - f) (length s);
         w = v * 10 ^ k + int (digits_val (take (Scale - f) s))
     in if frac_ok (Scale - f) s \<and> w \<le> INT64_MAX then Some (w, d + length s, f + k) else None)"
  using assms
proof (induction s arbitrary: v d f)
  case Nil
  then show ?case by (simp add: Let_def)
next
  case (Cons c s)
  show ?case
  proof (cases "is_digit c")
    case False
    then have "\<not> frac_ok (Scale - f) (c # s)" by (simp add: frac_ok_def)
    moreover have "fixed_loop Scale (c # s) v d f True = None" using False by simp
    ultimately show ?thesis by (simp only: Let_def simp_thms if_False)
  next
    case dig: True
    then have c: "c \<noteq> CHR ''.''" using is_digit_not_special by blast
    show ?thesis
    proof (cases "f = Scale")
      case True
      then show ?thesis using Cons dig c by (simp add: frac_ok_Cons_0 Let_def)
    next
      case False
      with Cons.prems obtain m where m: "Scale - f = Suc m" "Scale - Suc f = m" "Suc f \<le> Scale"
        by (metis Suc_diff_Suc diff_Suc_1 le_neq_implies_less Suc_leI)
      let ?x = "v * 10 + int (digit_val c)"
      have step: "fixed_loop Scale (c # s) v d f True =
        (if ?x > INT64_MAX then None else fixed_loop Scale s ?x (d + 1) (Suc f) True)"
        using dig c False overflow_guard [of "int (digit_val c)" v] by (simp add: Let_def)
      have val: "v * 10 ^ min (Suc m) (length (c # s)) + int (digits_val (take (Suc m) (c # s))) =
        ?x * 10 ^ min m (length s) + int (digits_val (take m s))"
        by (simp add: digits_val_Cons algebra_simps min.commute)
      have ge: "?x \<le> ?x * 10 ^ min m (length s) + int (digits_val (take m s))"
        using foldl_digits_ge [of ?x "take m s"] Cons.prems by (simp add: min.commute)
      show ?thesis
      proof (cases "?x > INT64_MAX")
        case True
        with ge show ?thesis unfolding step m(1) Let_def val by simp
      next
        case ok: False
        with Cons.IH [of "Suc f" ?x "d + 1"] Cons.prems m(2,3)
        have "fixed_loop Scale s ?x (d + 1) (Suc f) True =
          (let k = min m (length s); w = ?x * 10 ^ k + int (digits_val (take m s))
           in if frac_ok m s \<and> w \<le> INT64_MAX then Some (w, d + 1 + length s, Suc f + k) else None)"
          by simp
        with ok show ?thesis unfolding step m(1) Let_def val using dig by simp
      qed
    qed
  qed
qed

lemma fixed_loop_int:
  assumes "0 \<le> v" "v \<le> INT64_MAX"
  shows "fixed_loop Scale s v d 0 False =
    (let w = v * 10 ^ length (int_part s) + int (digits_val (int_part s))
     in if list_all is_digit (int_part s) \<and> w \<le> INT64_MAX
        then fixed_loop Scale (frac_part s) w (d + length (int_part s)) 0 True else None)"
  using assms
proof (induction s arbitrary: v d)
  case Nil
  then show ?case by (simp add: Let_def int_part_def frac_part_def)
next
  case (Cons c s)
  show ?case
  proof (cases "c = CHR ''.''")
    case True
    then show ?thesis using Cons.prems by (simp add: Let_def int_part_def frac_part_def)
  next
    case dot: False
    then have ip: "int_part (c # s) = c # int_part s" and fp: "frac_part (c # s) = frac_part s"
      by (simp_all add: int_part_def frac_part_def)
    show ?thesis
    proof (cases "is_digit c")
      case False
      with dot show ?thesis by (simp add: ip Let_def)
    next
      case dig: True
      let ?x = "v * 10 + int (digit_val c)"
      have step: "fixed_loop Scale (c # s) v d 0 False =
        (if ?x > INT64_MAX then None else fixed_loop Scale s ?x (d + 1) 0 False)"
        using dig dot overflow_guard [of "int (digit_val c)" v] by (simp add: Let_def)
      have val: "v * 10 ^ length (c # int_part s) + int (digits_val (c # int_part s)) =
        ?x * 10 ^ length (int_part s) + int (digits_val (int_part s))"
        by (simp add: digits_val_Cons algebra_simps)
      show ?thesis
      proof (cases "?x > INT64_MAX")
        case True
        moreover have "?x \<le> ?x * 10 ^ length (int_part s) + int (digits_val (int_part s))"
          using foldl_digits_ge [of ?x "int_part s"] Cons.prems by simp
        ultimately show ?thesis unfolding step ip Let_def val by simp
      next
        case False
        with Cons.IH [of ?x "d + 1"] Cons.prems dig show ?thesis
          unfolding step ip fp Let_def val by simp
      qed
    qed
  qed
qed

section \<open>The parser against the specification\<close>

text \<open>The magnitude in scaled units, and the digits that do not fit the scale.\<close>

definition fixed_mag :: "nat \<Rightarrow> string \<Rightarrow> nat" where
  "fixed_mag Scale b =
     digits_val (int_part b @ take Scale (frac_part b)) * 10 ^ (Scale - length (frac_part b))"

definition excess :: "nat \<Rightarrow> string \<Rightarrow> string" where
  "excess Scale b = drop Scale (frac_part b)"

lemma parse_fixed_body:
  "(case fixed_loop Scale b 0 0 0 False of
      None \<Rightarrow> None
    | Some (value, digits, frac_digits) \<Rightarrow>
        if digits = 0 then None else scale_up Scale frac_digits value) =
   (if list_all is_digit (int_part b @ frac_part b) \<and> int_part b @ frac_part b \<noteq> [] \<and>
       frac_ok Scale (frac_part b) \<and> int (fixed_mag Scale b) \<le> INT64_MAX
    then Some (int (fixed_mag Scale b)) else None)"
proof -
  let ?ip = "int_part b" and ?fr = "frac_part b"
  let ?k = "min Scale (length ?fr)"
  let ?w = "int (digits_val (?ip @ take Scale ?fr))"
  have w: "int (digits_val ?ip) * 10 ^ ?k + int (digits_val (take Scale ?fr)) = ?w"
    by (simp add: digits_val_append min.commute)
  have ipw: "int (digits_val ?ip) \<le> ?w"
    using foldl_digits_ge [of "int (digits_val ?ip)" "take Scale ?fr"]
    by (simp add: digits_val_append)
  have magw: "int (fixed_mag Scale b) = ?w * 10 ^ (Scale - ?k)"
    by (simp add: fixed_mag_def min_def)
  have wmag: "?w \<le> int (fixed_mag Scale b)"
    unfolding magw by (simp add: mult_le_cancel_left1)
  have loop: "fixed_loop Scale b 0 0 0 False =
    (if list_all is_digit ?ip \<and> frac_ok Scale ?fr \<and> ?w \<le> INT64_MAX
     then Some (?w, length ?ip + length ?fr, ?k) else None)"
    using ipw by (auto simp: fixed_loop_int fixed_loop_frac Let_def w INT64_MAX_def)
  have up: "?w \<le> INT64_MAX \<Longrightarrow> scale_up Scale ?k ?w =
    (if int (fixed_mag Scale b) \<le> INT64_MAX then Some (int (fixed_mag Scale b)) else None)"
    by (simp add: scale_up_eq magw)
  show ?thesis
  proof (cases "list_all is_digit ?ip \<and> frac_ok Scale ?fr \<and> ?w \<le> INT64_MAX")
    case True
    with up show ?thesis by (simp add: loop frac_ok_def)
  next
    case False
    with wmag show ?thesis by (auto simp: loop)
  qed
qed

lemma map_option_parse:
  "(case x of
      None \<Rightarrow> None
    | Some (value, digits, frac_digits) \<Rightarrow>
        if digits = (0::nat) then None
        else (case g frac_digits value of None \<Rightarrow> None | Some v \<Rightarrow> Some (h v))) =
   map_option h
     (case x of
        None \<Rightarrow> None
      | Some (value, digits, frac_digits) \<Rightarrow> if digits = 0 then None else g frac_digits value)"
  by (simp split: option.split prod.split)

lemma parse_fixed_eq:
  "parse_fixed Scale s =
    (if decimal_literal s \<and> frac_ok Scale (frac_part (dec_body s)) \<and>
        int (fixed_mag Scale (dec_body s)) \<le> INT64_MAX
     then Some ((if dec_negative s then - 1 else 1) * int (fixed_mag Scale (dec_body s)))
     else None)"
proof (cases s)
  case Nil
  then show ?thesis
    by (simp add: parse_fixed_def decimal_literal_def dec_body_def int_part_def frac_part_def)
next
  case (Cons c s')
  have body: "(if c = CHR ''-'' then s' else s) = dec_body s"
    and neg: "c = CHR ''-'' \<longleftrightarrow> dec_negative s"
    using Cons by (simp_all add: dec_body_def dec_negative_def)
  have "parse_fixed Scale s =
    map_option (\<lambda>v. if dec_negative s then - v else v)
      (case fixed_loop Scale (dec_body s) 0 0 0 False of
         None \<Rightarrow> None
       | Some (value, digits, frac_digits) \<Rightarrow>
           if digits = 0 then None else scale_up Scale frac_digits value)"
    unfolding map_option_parse [symmetric] body [symmetric] neg [symmetric]
    by (simp only: parse_fixed_def Cons list.case Let_def)
  then show ?thesis
    unfolding parse_fixed_body by (auto simp: decimal_literal_def)
qed

lemma decimal_rat_scaled:
  assumes "list_all is_digit (frac_part (dec_body s))"
  shows "decimal_rat s * 10 ^ Scale =
    (if dec_negative s then - 1 else 1) *
    (of_nat (fixed_mag Scale (dec_body s)) +
     of_nat (digits_val (excess Scale (dec_body s))) / 10 ^ length (excess Scale (dec_body s)))"
proof -
  let ?ip = "int_part (dec_body s)" and ?fr = "frac_part (dec_body s)"
  have "(of_nat (digits_val ?ip) + of_nat (digits_val ?fr) / 10 ^ length ?fr) * 10 ^ Scale =
    (of_nat (fixed_mag Scale (dec_body s)) +
     of_nat (digits_val (excess Scale (dec_body s))) / 10 ^ length (excess Scale (dec_body s)) :: rat)"
  proof (cases "length ?fr \<le> Scale")
    case True
    then have "(10::rat) ^ Scale = 10 ^ length ?fr * 10 ^ (Scale - length ?fr)"
      by (simp flip: power_add)
    with True show ?thesis
      by (simp add: excess_def fixed_mag_def digits_val_append field_simps)
  next
    case False
    define f1 f2 where f: "f1 = take Scale ?fr" "f2 = drop Scale ?fr"
    have fr: "?fr = f1 @ f2" and l: "length f1 = Scale" using False by (simp_all add: f)
    have "(of_nat (digits_val ?fr) / 10 ^ length ?fr) * 10 ^ Scale =
      (of_nat (digits_val f1) + of_nat (digits_val f2) / 10 ^ length f2 :: rat)"
      unfolding fr by (simp add: l digits_val_append power_add field_simps)
    with False l show ?thesis
      by (simp add: excess_def fixed_mag_def digits_val_append f [symmetric] distrib_right)
  qed
  then show ?thesis by (simp add: decimal_rat_def mult.assoc)
qed

lemma fraction_integral:
  fixes m v :: int and r :: rat
  assumes "of_int v = of_int m + r" "0 \<le> r" "r < 1"
  shows "r = 0"
proof -
  from assms(1) have r: "r = of_int (v - m)" by simp
  with assms(2,3) have "0 \<le> v - m" "v - m < 1" by (simp_all add: of_int_less_1_iff)
  then show ?thesis using r by simp
qed

lemma excess_zero_iff:
  assumes "list_all is_digit (frac_part b)"
  shows "frac_ok Scale (frac_part b) \<longleftrightarrow> digits_val (excess Scale b) = 0"
proof -
  have "list_all is_digit (excess Scale b)"
    using assms by (auto simp: excess_def list_all_iff dest: in_set_dropD)
  then show ?thesis using assms by (simp add: frac_ok_def digits_val_eq_0 excess_def)
qed

lemma excess_fraction:
  assumes "list_all is_digit (frac_part b)"
  shows "0 \<le> (of_nat (digits_val (excess Scale b)) / 10 ^ length (excess Scale b) :: rat)"
    and "(of_nat (digits_val (excess Scale b)) / 10 ^ length (excess Scale b) :: rat) < 1"
proof -
  have "list_all is_digit (excess Scale b)"
    using assms by (auto simp: excess_def list_all_iff dest: in_set_dropD)
  then have "digits_val (excess Scale b) < 10 ^ length (excess Scale b)"
    by (rule digits_val_bound)
  then have "(of_nat (digits_val (excess Scale b)) :: rat) < of_nat (10 ^ length (excess Scale b))"
    by (simp only: of_nat_less_iff)
  then show "(of_nat (digits_val (excess Scale b)) / 10 ^ length (excess Scale b) :: rat) < 1"
    by simp
qed simp

text \<open>
  \<open>parse_fixed\<close> is exact: it returns \<open>v\<close> for \<open>s\<close> if and only if \<open>s\<close> is a decimal literal
  (optional minus sign, digits with at most one point, at least one digit), the number it
  denotes times \<open>10^Scale\<close> is the integer \<open>v\<close>, with nothing rounded, and \<open>v\<close> fits the symmetric
  range of \<open>int64_t\<close>. In particular the overflow guards of both loops reject exactly the
  values that do not fit, and nothing else.
\<close>

lemma parse_fixed_iff:
  "parse_fixed Scale s = Some v \<longleftrightarrow>
     decimal_literal s \<and> of_int v = decimal_rat s * 10 ^ Scale \<and> \<bar>v\<bar> \<le> INT64_MAX"
proof (cases "decimal_literal s")
  case False
  then show ?thesis by (simp add: parse_fixed_eq)
next
  case True
  let ?b = "dec_body s"
  let ?m = "int (fixed_mag Scale ?b)"
  let ?sg = "if dec_negative s then - 1 else (1::int)"
  let ?x = "of_nat (digits_val (excess Scale ?b)) / 10 ^ length (excess Scale ?b) :: rat"
  from True have dig: "list_all is_digit (frac_part ?b)" by (simp add: decimal_literal_def)
  have scaled: "decimal_rat s * 10 ^ Scale = of_int ?sg * (of_int ?m + ?x)"
    using decimal_rat_scaled [OF dig, of Scale] by simp
  have x0: "?x = 0 \<longleftrightarrow> frac_ok Scale (frac_part ?b)"
    using excess_zero_iff [OF dig, of Scale] by simp
  show ?thesis
  proof (cases "frac_ok Scale (frac_part ?b)")
    case ok: True
    with x0 have x: "?x = 0" by blast
    have "(of_int v = decimal_rat s * 10 ^ Scale) = ((of_int v :: rat) = of_int (?sg * ?m))"
      unfolding scaled x by simp
    also have "\<dots> = (v = ?sg * ?m)" by (simp only: of_int_eq_iff)
    finally show ?thesis using True ok by (auto simp: parse_fixed_eq split: if_splits)
  next
    case False
    have "of_int v \<noteq> decimal_rat s * 10 ^ Scale"
    proof
      assume "of_int v = decimal_rat s * 10 ^ Scale"
      then have "(of_int (?sg * v) :: rat) = of_int ?m + ?x" unfolding scaled by auto
      from fraction_integral [OF this excess_fraction [OF dig]] have "?x = 0" .
      with x0 False show False by blast
    qed
    with False show ?thesis by (simp add: parse_fixed_eq)
  qed
qed

lemma parse_fixed_in_int64: "parse_fixed Scale s = Some v \<Longrightarrow> in_int64 v"
  by (auto simp: parse_fixed_iff in_int64_def INT64_MAX_def INT64_MIN_def)

lemma parse_fixed_abs_le: "parse_fixed Scale s = Some v \<Longrightarrow> \<bar>v\<bar> \<le> INT64_MAX"
  by (simp add: parse_fixed_iff)

text \<open>
  C3. Exactness of \<open>parse_fixed<Scale>\<close>. It returns \<open>v\<close> exactly when the text is a decimal
  literal (an optional minus, at least one digit, at most one point), \<open>v\<close> is its rational value
  times \<open>10^Scale\<close> with nothing rounded away, and the magnitude of \<open>v\<close> fits an \<open>int64_t\<close>; in
  every other case it returns no value.
\<close>

theorem parse_fixed_exact:
  "parse_fixed Scale s = Some v \<longleftrightarrow>
     decimal_literal s \<and> of_int v = decimal_rat s * 10 ^ Scale \<and> \<bar>v\<bar> \<le> INT64_MAX"
  by (rule parse_fixed_iff)

section \<open>The compile-time checks of the header\<close>

lemma parse_fixed_static_asserts:
  "parse_fixed 2 ''0.29'' = Some 29"
  "parse_fixed 2 ''0.2900'' = Some 29"
  "parse_fixed 2 ''12.00'' = Some 1200"
  "parse_fixed 2 ''-5.00'' = Some (- 500)"
  "parse_fixed 2 ''7'' = Some 700"
  "parse_fixed 0 ''3.00'' = Some 3"
  "parse_fixed 2 ''0.295'' = None"
  "parse_fixed 2 ''1.2.3'' = None"
  "parse_fixed 2 ''-'' = None"
  "parse_fixed 2 ''abc'' = None"
  "parse_fixed 0 ''9223372036854775807'' = Some INT64_MAX"
  "parse_fixed 0 ''9223372036854775808'' = None"
  by code_simp+

end
