(* ===== verification/Market_State.thy ===== *)
theory Market_State
  imports Fixed_Point Messages
begin

text \<open>
  \<open>include/market_state.hpp\<close> and \<open>src/trading/market_state.cpp\<close>: the local order book.

  Each side is an array of quantities indexed by price. It is modelled as a function from
  prices to quantities; the array has the indices 0 to \<open>kMaxPrice\<close>, and
  \<open>parse_price_range\<close> shows that every price the operations index with is one of them.
  The best bid of each side is a field of its own, maintained incrementally; the invariant
  \<open>book_inv\<close> says it is what a full scan of the side would find.

  The additions on quantities are signed 64-bit additions, undefined on overflow:
  \<open>apply_delta\<close> returns \<open>None\<close> there.
\<close>

section \<open>Definitions\<close>

type_synonym Price = int
type_synonym Quantity = int
type_synonym Levels = "Price \<Rightarrow> Quantity"

definition kPriceDecimals :: nat where "kPriceDecimals = 3"
definition kTicksPerCent :: Price where "kTicksPerCent = 10"
definition kMaxPrice :: Price where "kMaxPrice = 1000"

definition cents :: "int \<Rightarrow> Price" where
  "cents c = c * kTicksPerCent"

definition format_price :: "Price \<Rightarrow> string" where
  "format_price p =
     (if cmod p kTicksPerCent = 0 then show_int (cdiv p kTicksPerCent) @ ''c''
      else show_int (cdiv p kTicksPerCent) @ ''.'' @ show_int (cmod p kTicksPerCent) @ ''c'')"

definition price_to_dollars :: "Price \<Rightarrow> string" where
  "price_to_dollars p =
     show_int (cdiv p kMaxPrice) @ ''.'' @ show_int_padded 3 (cmod p kMaxPrice) @ ''0''"

datatype BookErrorKind = Malformed | OutOfSync

record BookError =
  book_error_kind :: BookErrorKind
  book_error_message :: string

record MarketState =
  market_ticker :: string
  yes :: Levels
  no :: Levels
  best_yes :: Price
  best_no :: Price

definition MarketState_init :: MarketState where
  "MarketState_init =
     \<lparr>market_ticker = [], yes = (\<lambda>_. 0), no = (\<lambda>_. 0), best_yes = 0, best_no = 0\<rparr>"

definition best_yes_bid :: "MarketState \<Rightarrow> Price option" where
  "best_yes_bid m = (if best_yes m \<noteq> 0 then Some (best_yes m) else None)"

definition best_yes_ask :: "MarketState \<Rightarrow> Price option" where
  "best_yes_ask m = (if best_no m \<noteq> 0 then Some (kMaxPrice - best_no m) else None)"

abbreviation QUOTE :: string where "QUOTE \<equiv> [CHR 0x27]"

definition malformed :: "string \<Rightarrow> BookError + 'a" where
  "malformed message = Inl \<lparr>book_error_kind = Malformed, book_error_message = message\<rparr>"

definition parse_price :: "string \<Rightarrow> BookError + Price" where
  "parse_price s =
     (case parse_fixed kPriceDecimals s of
        None \<Rightarrow> malformed (''unsupported price '' @ QUOTE @ s @ QUOTE @ '' (book resolution is $0.001)'')
      | Some price \<Rightarrow>
          if price < 1 \<or> price \<ge> kMaxPrice
          then malformed (''unsupported price '' @ QUOTE @ s @ QUOTE @ '' (book resolution is $0.001)'')
          else Inr price)"

definition parse_quantity :: "string \<Rightarrow> BookError + Quantity" where
  "parse_quantity s =
     (case parse_fixed 2 s of
        None \<Rightarrow> malformed (''invalid quantity '' @ QUOTE @ s @ QUOTE)
      | Some qty \<Rightarrow> Inr qty)"

function scan_best :: "Levels \<Rightarrow> Price \<Rightarrow> Price" where
  "scan_best levels p =
     (if p > 0 then (if levels p > 0 then p else scan_best levels (p - 1)) else 0)"
  by pat_completeness auto
termination
  by (relation "measure (\<lambda>(levels, p). nat p)") auto

declare scan_best.simps [simp del]

text \<open>The inner loop of \<open>apply_snapshot\<close> over one side, writing into its scratch array.\<close>

fun snapshot_side :: "PriceLevel list \<Rightarrow> Levels \<Rightarrow> BookError + Levels" where
  "snapshot_side [] levels = Inr levels"
| "snapshot_side ((price_str, qty_str) # rest) levels =
     (case parse_price price_str of
        Inl e \<Rightarrow> Inl e
      | Inr price \<Rightarrow>
          (case parse_quantity qty_str of
             Inl e \<Rightarrow> Inl e
           | Inr qty \<Rightarrow> snapshot_side rest (levels(price := qty))))"

definition apply_snapshot ::
  "MarketState \<Rightarrow> OrderBookSnapshot \<Rightarrow> (BookError + unit) \<times> MarketState" where
  "apply_snapshot m snapshot =
     (case snapshot_side (yes_dollars_fp snapshot) (\<lambda>_. 0) of
        Inl e \<Rightarrow> (Inl e, m)
      | Inr yes' \<Rightarrow>
          (case snapshot_side (no_dollars_fp snapshot) (\<lambda>_. 0) of
             Inl e \<Rightarrow> (Inl e, m)
           | Inr no' \<Rightarrow>
               (Inr (),
                m\<lparr>market_ticker := snap_market_ticker snapshot,
                  yes := yes', no := no',
                  best_yes := scan_best yes' (kMaxPrice - 1),
                  best_no := scan_best no' (kMaxPrice - 1)\<rparr>)))"

text \<open>
  The part of \<open>apply_delta\<close> below the parsing: the array and the best price of the side the
  delta addresses are the references \<open>levels\<close> and \<open>best\<close> of the source.
\<close>

definition update_side ::
  "string \<Rightarrow> Levels \<Rightarrow> Price \<Rightarrow> Price \<Rightarrow> Quantity \<Rightarrow> ((BookError + unit) \<times> Levels \<times> Price) option" where
  "update_side side levels best price qty =
     (case add64 (levels price) qty of
        None \<Rightarrow> None
      | Some raw \<Rightarrow>
          (let result =
                 (if raw < 0
                  then Inl \<lparr>book_error_kind = OutOfSync,
                            book_error_message = ''book out of sync: '' @ side @ '' level '' @
                              format_price price @ '' went negative''\<rparr>
                  else Inr ());
               level = (if raw < 0 then 0 else raw);
               levels' = levels(price := level);
               best' = (if level > 0 \<and> price > best then price
                        else if level = 0 \<and> price = best then scan_best levels' (price - 1)
                        else best)
           in Some (result, levels', best')))"

definition apply_delta ::
  "MarketState \<Rightarrow> OrderBookDelta \<Rightarrow> ((BookError + unit) \<times> MarketState) option" where
  "apply_delta m delta =
     (let is_yes = (delta_side delta = ''yes'') in
      if \<not> is_yes \<and> delta_side delta \<noteq> ''no''
      then Some (malformed (''invalid side '' @ QUOTE @ delta_side delta @ QUOTE), m)
      else
        case parse_price (price_dollars delta) of
          Inl e \<Rightarrow> Some (Inl e, m)
        | Inr price \<Rightarrow>
            (case parse_quantity (delta_fp delta) of
               Inl e \<Rightarrow> Some (Inl e, m)
             | Inr qty \<Rightarrow>
                 (if is_yes then
                    (case update_side (delta_side delta) (yes m) (best_yes m) price qty of
                       None \<Rightarrow> None
                     | Some (result, levels, best) \<Rightarrow>
                         Some (result, m\<lparr>yes := levels, best_yes := best\<rparr>))
                  else
                    (case update_side (delta_side delta) (no m) (best_no m) price qty of
                       None \<Rightarrow> None
                     | Some (result, levels, best) \<Rightarrow>
                         Some (result, m\<lparr>no := levels, best_no := best\<rparr>)))))"

section \<open>Specification\<close>

text \<open>The top of a side, read off the levels: the highest price with a positive quantity.\<close>

definition bids :: "Levels \<Rightarrow> Price set" where
  "bids levels = {p. 1 \<le> p \<and> p < kMaxPrice \<and> levels p > 0}"

definition top_bid :: "Levels \<Rightarrow> Price option" where
  "top_bid levels = (if bids levels = {} then None else Some (Max (bids levels)))"

definition side_ok :: "Levels \<Rightarrow> Price \<Rightarrow> bool" where
  "side_ok levels best \<longleftrightarrow> best = scan_best levels (kMaxPrice - 1)"

definition book_inv :: "MarketState \<Rightarrow> bool" where
  "book_inv m \<longleftrightarrow> side_ok (yes m) (best_yes m) \<and> side_ok (no m) (best_no m)"

text \<open>
  The books a session can reach: the empty book, and what snapshots and deltas make of a
  reachable book, whether they succeed or report an error.
\<close>

inductive book_reach :: "MarketState \<Rightarrow> bool" where
  book_init: "book_reach MarketState_init"
| book_snapshot: "book_reach m \<Longrightarrow> apply_snapshot m snapshot = (r, m') \<Longrightarrow> book_reach m'"
| book_delta: "book_reach m \<Longrightarrow> apply_delta m delta = Some (r, m') \<Longrightarrow> book_reach m'"

section \<open>Parsing of prices and quantities\<close>

lemmas book_consts = kMaxPrice_def kTicksPerCent_def kPriceDecimals_def

lemma malformedE:
  assumes "r = malformed s"
  obtains e where "r = Inl e" "book_error_kind e = Malformed"
  using assms by (simp add: malformed_def)

lemma parse_price_Inr:
  "parse_price s = Inr p \<longleftrightarrow> parse_fixed 3 s = Some p \<and> 1 \<le> p \<and> p < 1000"
  by (auto simp: parse_price_def malformed_def book_consts split: option.splits)

lemma parse_price_Inl:
  "parse_price s = Inl e \<Longrightarrow> book_error_kind e = Malformed"
  by (auto simp: parse_price_def malformed_def split: option.splits if_splits)

lemma parse_price_range: "parse_price s = Inr p \<Longrightarrow> 1 \<le> p \<and> p < kMaxPrice"
  by (simp add: parse_price_Inr kMaxPrice_def)

lemma parse_quantity_Inr: "parse_quantity s = Inr q \<longleftrightarrow> parse_fixed 2 s = Some q"
  by (auto simp: parse_quantity_def malformed_def split: option.splits)

lemma parse_quantity_Inl: "parse_quantity s = Inl e \<Longrightarrow> book_error_kind e = Malformed"
  by (auto simp: parse_quantity_def malformed_def split: option.splits)

lemma parse_quantity_range: "parse_quantity s = Inr q \<Longrightarrow> in_int64 q"
  by (auto simp: parse_quantity_Inr dest: parse_fixed_in_int64)

section \<open>The downward scan\<close>

lemma scan_best_cases:
  "(scan_best levels p = 0 \<and> (\<forall>q. 0 < q \<and> q \<le> p \<longrightarrow> levels q \<le> 0)) \<or>
   (0 < scan_best levels p \<and> scan_best levels p \<le> p \<and> levels (scan_best levels p) > 0 \<and>
    (\<forall>q. scan_best levels p < q \<and> q \<le> p \<longrightarrow> levels q \<le> 0))"
proof (induction levels p rule: scan_best.induct)
  case (1 levels p)
  show ?case
  proof (cases "p > 0 \<and> \<not> levels p > 0")
    case True
    then have s: "scan_best levels p = scan_best levels (p - 1)"
      by (simp add: scan_best.simps [of levels p])
    from True have IH: "(scan_best levels (p - 1) = 0 \<and> (\<forall>q. 0 < q \<and> q \<le> p - 1 \<longrightarrow> levels q \<le> 0)) \<or>
      (0 < scan_best levels (p - 1) \<and> scan_best levels (p - 1) \<le> p - 1 \<and>
       levels (scan_best levels (p - 1)) > 0 \<and>
       (\<forall>q. scan_best levels (p - 1) < q \<and> q \<le> p - 1 \<longrightarrow> levels q \<le> 0))"
      using "1.IH" by blast
    have "q \<le> p \<longleftrightarrow> q \<le> p - 1 \<or> q = p" for q by auto
    with IH True show ?thesis unfolding s by force
  next
    case False
    then show ?thesis by (auto simp: scan_best.simps [of levels p])
  qed
qed

lemma scan_best_eqI:
  assumes "(b = 0 \<and> (\<forall>q. 0 < q \<and> q \<le> p \<longrightarrow> levels q \<le> 0)) \<or>
    (0 < b \<and> b \<le> p \<and> levels b > 0 \<and> (\<forall>q. b < q \<and> q \<le> p \<longrightarrow> levels q \<le> 0))"
  shows "scan_best levels p = b"
proof (rule ccontr)
  assume "scan_best levels p \<noteq> b"
  then consider "scan_best levels p < b" | "b < scan_best levels p" by linarith
  then show False using assms scan_best_cases [of levels p] by cases force+
qed

lemma scan_best_iff:
  "scan_best levels p = b \<longleftrightarrow>
    (b = 0 \<and> (\<forall>q. 0 < q \<and> q \<le> p \<longrightarrow> levels q \<le> 0)) \<or>
    (0 < b \<and> b \<le> p \<and> levels b > 0 \<and> (\<forall>q. b < q \<and> q \<le> p \<longrightarrow> levels q \<le> 0))"
  using scan_best_eqI [of b p levels] scan_best_cases [of levels p] by blast

lemma side_ok_range: "side_ok levels best \<Longrightarrow> 0 \<le> best \<and> best < kMaxPrice"
  using scan_best_cases [of levels "kMaxPrice - 1"] by (auto simp: side_ok_def kMaxPrice_def)

lemma finite_bids [simp]: "finite (bids levels)"
  by (rule finite_subset [of _ "{1..<kMaxPrice}"]) (auto simp: bids_def)

lemma side_ok_top:
  assumes "side_ok levels best"
  shows "top_bid levels = (if best = 0 then None else Some best)"
proof -
  have b: "scan_best levels (kMaxPrice - 1) = best" using assms by (simp add: side_ok_def)
  show ?thesis
  proof (cases "best = 0")
    case True
    with b have none: "levels q \<le> 0" if "0 < q" "q \<le> kMaxPrice - 1" for q
      using that by (simp add: scan_best_iff)
    have "q \<notin> bids levels" for q using none [of q] by (auto simp: bids_def)
    then have "bids levels = {}" by blast
    with True show ?thesis by (simp add: top_bid_def)
  next
    case False
    with b have in_bids: "best \<in> bids levels"
      and above: "\<And>q. best < q \<Longrightarrow> q \<le> kMaxPrice - 1 \<Longrightarrow> levels q \<le> 0"
      by (auto simp: scan_best_iff bids_def)
    have "q \<le> best" if "q \<in> bids levels" for q
      using that above [of q] by (auto simp: bids_def intro: ccontr)
    with in_bids have "Max (bids levels) = best" by (intro Max_eqI) auto
    with False in_bids show ?thesis by (auto simp: top_bid_def)
  qed
qed

section \<open>One side under an update\<close>

definition side_best :: "Levels \<Rightarrow> Price \<Rightarrow> Price \<Rightarrow> Price" where
  "side_best levels best price =
     (if levels price > 0 \<and> price > best then price
      else if levels price = 0 \<and> price = best then scan_best levels (price - 1)
      else best)"

definition out_of_sync :: "string \<Rightarrow> Price \<Rightarrow> BookError" where
  "out_of_sync side price =
     \<lparr>book_error_kind = OutOfSync,
      book_error_message = ''book out of sync: '' @ side @ '' level '' @
        format_price price @ '' went negative''\<rparr>"

lemma update_side_eq:
  "update_side side levels best price qty =
    (if in_int64 (levels price + qty)
     then Some (if levels price + qty < 0 then Inl (out_of_sync side price) else Inr (),
                levels(price := max 0 (levels price + qty)),
                side_best (levels(price := max 0 (levels price + qty))) best price)
     else None)"
proof -
  have clamp: "(if levels price + qty < 0 then 0 else levels price + qty) = max 0 (levels price + qty)"
    by simp
  show ?thesis
    by (simp only: update_side_def add64_def Let_def clamp out_of_sync_def side_best_def fun_upd_same
        if_distrib [of "\<lambda>x. case x of None \<Rightarrow> None | Some raw \<Rightarrow> _ raw"] option.case)
qed

lemma side_best_ok:
  assumes inv: "side_ok levels best" and p: "1 \<le> price" "price < kMaxPrice" and l: "0 \<le> l"
  shows "side_ok (levels(price := l)) (side_best (levels(price := l)) best price)"
proof -
  let ?lv = "levels(price := l)"
  have b: "(best = 0 \<and> (\<forall>q. 0 < q \<and> q \<le> kMaxPrice - 1 \<longrightarrow> levels q \<le> 0)) \<or>
    (0 < best \<and> best \<le> kMaxPrice - 1 \<and> levels best > 0 \<and>
     (\<forall>q. best < q \<and> q \<le> kMaxPrice - 1 \<longrightarrow> levels q \<le> 0))"
    using scan_best_iff [of levels "kMaxPrice - 1" best] inv by (simp add: side_ok_def)
  have "scan_best ?lv (kMaxPrice - 1) = side_best ?lv best price"
  proof (cases "l = 0 \<and> price = best")
    case True
    define b' where "b' = scan_best ?lv (price - 1)"
    have s: "(b' = 0 \<and> (\<forall>q. 0 < q \<and> q \<le> price - 1 \<longrightarrow> ?lv q \<le> 0)) \<or>
      (0 < b' \<and> b' \<le> price - 1 \<and> ?lv b' > 0 \<and> (\<forall>q. b' < q \<and> q \<le> price - 1 \<longrightarrow> ?lv q \<le> 0))"
      using scan_best_cases [of ?lv "price - 1"] by (simp only: b'_def)
    have above: "?lv q \<le> 0" if "price - 1 < q" "q \<le> kMaxPrice - 1" for q
      using that b True p by (cases "q = price") auto
    have up: "?lv q \<le> 0" if "q \<le> price - 1 \<Longrightarrow> ?lv q \<le> 0" "q \<le> kMaxPrice - 1" for q
      using that above [of q] by (cases "q \<le> price - 1") auto
    have "scan_best ?lv (kMaxPrice - 1) = b'"
    proof (rule scan_best_eqI)
      show "(b' = 0 \<and> (\<forall>q. 0 < q \<and> q \<le> kMaxPrice - 1 \<longrightarrow> ?lv q \<le> 0)) \<or>
        (0 < b' \<and> b' \<le> kMaxPrice - 1 \<and> ?lv b' > 0 \<and>
         (\<forall>q. b' < q \<and> q \<le> kMaxPrice - 1 \<longrightarrow> ?lv q \<le> 0))"
        using s p up by (auto simp del: fun_upd_apply)
    qed
    with True show ?thesis by (simp add: side_best_def b'_def)
  next
    case False
    then have "side_best ?lv best price = (if l > 0 \<and> price > best then price else best)"
      by (auto simp: side_best_def)
    with b p l False show ?thesis
      by (intro scan_best_eqI) (auto split: if_splits)
  qed
  then show ?thesis by (simp add: side_ok_def)
qed

lemma update_side_ok [wf_preserve]:
  assumes "side_ok levels best" "1 \<le> price" "price < kMaxPrice"
    and "update_side side levels best price qty = Some (r, levels', best')"
  shows "side_ok levels' best'"
  using assms side_best_ok [of levels best price "max 0 (levels price + qty)"]
  by (auto simp: update_side_eq split: if_splits)

section \<open>The invariant\<close>

lemma book_inv_init [wf_preserve]: "book_inv MarketState_init"
  by (simp add: book_inv_def side_ok_def MarketState_init_def scan_best_iff)

lemma apply_snapshot_inv [wf_preserve]:
  "book_inv m \<Longrightarrow> apply_snapshot m snapshot = (r, m') \<Longrightarrow> book_inv m'"
  by (auto simp: apply_snapshot_def book_inv_def side_ok_def split: sum.splits)

text \<open>
  The exits of \<open>apply_delta\<close>: an error found while parsing leaves the book as it was; after
  that one side is updated and the other kept.
\<close>

lemma apply_delta_eq:
  "apply_delta m delta =
    (if delta_side delta \<noteq> ''yes'' \<and> delta_side delta \<noteq> ''no''
     then Some (malformed (''invalid side '' @ QUOTE @ delta_side delta @ QUOTE), m)
     else case parse_price (price_dollars delta) of
       Inl e \<Rightarrow> Some (Inl e, m)
     | Inr price \<Rightarrow>
         (case parse_quantity (delta_fp delta) of
            Inl e \<Rightarrow> Some (Inl e, m)
          | Inr qty \<Rightarrow>
             (if delta_side delta = ''yes''
              then map_option (\<lambda>(r, lv, b). (r, m\<lparr>yes := lv, best_yes := b\<rparr>))
                     (update_side ''yes'' (yes m) (best_yes m) price qty)
              else map_option (\<lambda>(r, lv, b). (r, m\<lparr>no := lv, best_no := b\<rparr>))
                     (update_side ''no'' (no m) (best_no m) price qty))))"
proof (cases "delta_side delta = ''yes'' \<or> delta_side delta = ''no''")
  case True
  then show ?thesis
    by (elim disjE) (simp_all add: apply_delta_def Let_def split: sum.split option.split prod.split)
next
  case False
  then show ?thesis by (simp add: apply_delta_def Let_def)
qed

lemma apply_delta_cases:
  assumes "apply_delta m delta = Some (r, m')"
  obtains (bad) e where "r = Inl e" "book_error_kind e = Malformed" "m' = m"
  | (on_yes) price qty lv b where "delta_side delta = ''yes''"
      "parse_price (price_dollars delta) = Inr price" "parse_quantity (delta_fp delta) = Inr qty"
      "update_side ''yes'' (yes m) (best_yes m) price qty = Some (r, lv, b)"
      "m' = m\<lparr>yes := lv, best_yes := b\<rparr>"
  | (on_no) price qty lv b where "delta_side delta = ''no''"
      "parse_price (price_dollars delta) = Inr price" "parse_quantity (delta_fp delta) = Inr qty"
      "update_side ''no'' (no m) (best_no m) price qty = Some (r, lv, b)"
      "m' = m\<lparr>no := lv, best_no := b\<rparr>"
proof (cases "delta_side delta = ''yes'' \<or> delta_side delta = ''no''")
  case False
  with assms have "r = malformed (''invalid side '' @ QUOTE @ delta_side delta @ QUOTE)" "m' = m"
    by (simp_all add: apply_delta_eq)
  moreover from this(1) obtain e where "r = Inl e" "book_error_kind e = Malformed"
    by (rule malformedE)
  ultimately show ?thesis by (intro bad)
next
  case side: True
  show ?thesis
  proof (cases "parse_price (price_dollars delta)")
    case (Inl e)
    with assms side have "r = Inl e" "m' = m" by (auto simp: apply_delta_eq)
    then show ?thesis using parse_price_Inl [OF Inl] by (intro bad)
  next
    case (Inr price)
    note pp = this
    show ?thesis
    proof (cases "parse_quantity (delta_fp delta)")
      case (Inl e)
      with assms side pp have "r = Inl e" "m' = m" by (auto simp: apply_delta_eq)
      then show ?thesis using parse_quantity_Inl [OF Inl] by (intro bad)
    next
      case (Inr qty)
      show ?thesis
      proof (cases "delta_side delta = ''yes''")
        case True
        with assms pp Inr obtain lv b where
          "update_side ''yes'' (yes m) (best_yes m) price qty = Some (r, lv, b)"
          "m' = m\<lparr>yes := lv, best_yes := b\<rparr>"
          by (auto simp: apply_delta_eq)
        with True pp Inr show ?thesis by (rule on_yes)
      next
        case False
        with side have no: "delta_side delta = ''no''" by blast
        with assms pp Inr obtain lv b where
          "update_side ''no'' (no m) (best_no m) price qty = Some (r, lv, b)"
          "m' = m\<lparr>no := lv, best_no := b\<rparr>"
          by (auto simp: apply_delta_eq)
        with no pp Inr show ?thesis by (rule on_no)
      qed
    qed
  qed
qed

lemma apply_delta_inv [wf_preserve]:
  assumes inv: "book_inv m" and d: "apply_delta m delta = Some (r, m')"
  shows "book_inv m'"
  using d
proof (cases rule: apply_delta_cases)
  case bad
  with inv show ?thesis by simp
next
  case (on_yes price qty lv b)
  with inv update_side_ok [of "yes m" "best_yes m" price "''yes''" qty r lv b] parse_price_range
  show ?thesis by (simp add: book_inv_def)
next
  case (on_no price qty lv b)
  with inv update_side_ok [of "no m" "best_no m" price "''no''" qty r lv b] parse_price_range
  show ?thesis by (simp add: book_inv_def)
qed

lemma book_reach_inv: "book_reach m \<Longrightarrow> book_inv m"
  by (induction rule: book_reach.induct) (auto intro: wf_preserve)

lemma book_inv_bid: "book_inv m \<Longrightarrow> best_yes_bid m = top_bid (yes m)"
  using side_ok_top [of "yes m" "best_yes m"] by (simp add: book_inv_def best_yes_bid_def)

lemma book_inv_ask: "book_inv m \<Longrightarrow> best_yes_ask m = map_option (\<lambda>p. kMaxPrice - p) (top_bid (no m))"
  using side_ok_top [of "no m" "best_no m"] by (simp add: book_inv_def best_yes_ask_def)

section \<open>The interface of the book\<close>

text \<open>
  What a reader of the top of the book (the strategy) relies on: a bid and an ask, when they
  are there, are prices strictly between 0 and $1. The laws hold of every book that
  satisfies the invariant.
\<close>

locale top_of_book =
  fixes inv :: "'b \<Rightarrow> bool"
    and bid :: "'b \<Rightarrow> int option"
    and ask :: "'b \<Rightarrow> int option"
    and max_price :: int
  assumes bid_range: "inv b \<Longrightarrow> bid b = Some p \<Longrightarrow> 1 \<le> p \<and> p < max_price"
    and ask_range: "inv b \<Longrightarrow> ask b = Some p \<Longrightarrow> 1 \<le> p \<and> p < max_price"
begin

lemma spread_bounds:
  assumes "inv b" "bid b = Some x" "ask b = Some y" "x < y"
  shows "2 \<le> max_price - 1 \<and> 0 < y - x \<and> y - x \<le> max_price - 2"
  using bid_range [OF assms(1,2)] ask_range [OF assms(1,3)] assms(4) by linarith

lemma mid_bounds:
  assumes "inv b" "bid b = Some x" "ask b = Some y" "x < y"
  shows "2 * x < x + y \<and> x + y < 2 * y \<and> 0 < x + y \<and> x + y < 2 * max_price"
  using bid_range [OF assms(1,2)] ask_range [OF assms(1,3)] assms(4) by linarith

end

interpretation book: top_of_book book_inv best_yes_bid best_yes_ask kMaxPrice
proof
  fix b p
  assume inv: "book_inv b"
  have "0 \<le> best_yes b \<and> best_yes b < kMaxPrice" "0 \<le> best_no b \<and> best_no b < kMaxPrice"
    using inv side_ok_range by (auto simp: book_inv_def)
  then show "best_yes_bid b = Some p \<Longrightarrow> 1 \<le> p \<and> p < kMaxPrice"
    and "best_yes_ask b = Some p \<Longrightarrow> 1 \<le> p \<and> p < kMaxPrice"
    by (auto simp: best_yes_bid_def best_yes_ask_def split: if_splits)
qed

section \<open>Effect of the operations on the levels\<close>

text \<open>The level a delta addresses, and the size it leaves there.\<close>

definition delta_sum :: "MarketState \<Rightarrow> OrderBookDelta \<Rightarrow> Price \<Rightarrow> Quantity \<Rightarrow> int" where
  "delta_sum m delta price qty = (if delta_side delta = ''yes'' then yes m price else no m price) + qty"

lemma apply_delta_parsed:
  assumes "delta_side delta = ''yes'' \<or> delta_side delta = ''no''"
    and "parse_price (price_dollars delta) = Inr price" and "parse_quantity (delta_fp delta) = Inr qty"
  shows "apply_delta m delta =
    (let raw = delta_sum m delta price qty in
     if \<not> in_int64 raw then None
     else Some (if raw < 0 then Inl (out_of_sync (delta_side delta) price) else Inr (),
       if delta_side delta = ''yes''
       then m\<lparr>yes := (yes m)(price := max 0 raw),
              best_yes := side_best ((yes m)(price := max 0 raw)) (best_yes m) price\<rparr>
       else m\<lparr>no := (no m)(price := max 0 raw),
              best_no := side_best ((no m)(price := max 0 raw)) (best_no m) price\<rparr>))"
  using assms by (elim disjE) (simp_all add: apply_delta_eq update_side_eq delta_sum_def Let_def)

text \<open>The levels a side of a snapshot denotes: the last entry for a price wins.\<close>

definition level_entries :: "PriceLevel list \<Rightarrow> (Price \<times> Quantity) list" where
  "level_entries ls = map (\<lambda>(p, q). (the (parse_fixed 3 p), the (parse_fixed 2 q))) ls"

definition levels_of :: "PriceLevel list \<Rightarrow> Levels" where
  "levels_of ls p = (case map_of (rev (level_entries ls)) p of None \<Rightarrow> 0 | Some q \<Rightarrow> q)"

definition level_ok :: "PriceLevel \<Rightarrow> bool" where
  "level_ok pq \<longleftrightarrow>
     (\<exists>p. parse_fixed 3 (fst pq) = Some p \<and> 1 \<le> p \<and> p < 1000) \<and> parse_fixed 2 (snd pq) \<noteq> None"

lemma snapshot_side_acc:
  "snapshot_side ls lv = Inr lv' \<longleftrightarrow>
     list_all level_ok ls \<and>
     lv' = (\<lambda>p. case map_of (rev (level_entries ls)) p of None \<Rightarrow> lv p | Some q \<Rightarrow> q)"
proof (induction ls arbitrary: lv)
  case Nil
  then show ?case by (auto simp: level_entries_def)
next
  case (Cons l ls)
  obtain a b where l: "l = (a, b)" by (cases l)
  show ?case
  proof (cases "level_ok l")
    case True
    then obtain p q where pq: "parse_fixed 3 a = Some p" "1 \<le> p" "p < 1000" "parse_fixed 2 b = Some q"
      by (auto simp: level_ok_def l)
    then have "parse_price a = Inr p" "parse_quantity b = Inr q"
      by (simp_all add: parse_price_Inr parse_quantity_Inr)
    moreover have "map_of (rev (level_entries (l # ls))) x =
      (case map_of (rev (level_entries ls)) x of None \<Rightarrow> (if x = p then Some q else None) | Some y \<Rightarrow> Some y)" for x
      using pq by (simp add: level_entries_def l map_add_def split: option.split)
    ultimately show ?thesis using True
      by (simp add: Cons.IH l fun_eq_iff) (auto split: option.splits)
  next
    case False
    then have "\<not> (\<exists>p q. parse_price a = Inr p \<and> parse_quantity b = Inr q)"
      by (auto simp: level_ok_def l parse_price_Inr parse_quantity_Inr)
    with False show ?thesis by (auto simp: l split: sum.splits)
  qed
qed

lemma snapshot_side_Inr:
  "snapshot_side ls (\<lambda>_. 0) = Inr lv \<longleftrightarrow> list_all level_ok ls \<and> lv = levels_of ls"
  by (simp add: snapshot_side_acc levels_of_def fun_eq_iff)

lemma snapshot_side_Inl: "snapshot_side ls lv = Inl e \<Longrightarrow> book_error_kind e = Malformed"
  by (induction ls lv rule: snapshot_side.induct)
    (auto split: sum.splits dest: parse_price_Inl parse_quantity_Inl)

lemma apply_snapshot_eq:
  "list_all level_ok (yes_dollars_fp s) \<and> list_all level_ok (no_dollars_fp s) \<Longrightarrow>
   apply_snapshot m s =
     (Inr (), m\<lparr>market_ticker := snap_market_ticker s,
        yes := levels_of (yes_dollars_fp s), no := levels_of (no_dollars_fp s),
        best_yes := scan_best (levels_of (yes_dollars_fp s)) (kMaxPrice - 1),
        best_no := scan_best (levels_of (no_dollars_fp s)) (kMaxPrice - 1)\<rparr>)"
proof -
  assume "list_all level_ok (yes_dollars_fp s) \<and> list_all level_ok (no_dollars_fp s)"
  then have "snapshot_side (yes_dollars_fp s) (\<lambda>_. 0) = Inr (levels_of (yes_dollars_fp s))"
    and "snapshot_side (no_dollars_fp s) (\<lambda>_. 0) = Inr (levels_of (no_dollars_fp s))"
    by (simp_all add: snapshot_side_Inr)
  then show ?thesis by (simp add: apply_snapshot_def)
qed

lemma apply_snapshot_bad:
  assumes "\<not> (list_all level_ok (yes_dollars_fp s) \<and> list_all level_ok (no_dollars_fp s))"
  shows "\<exists>e. apply_snapshot m s = (Inl e, m) \<and> book_error_kind e = Malformed"
proof (cases "snapshot_side (yes_dollars_fp s) (\<lambda>_. 0)")
  case (Inl e)
  then show ?thesis by (simp add: apply_snapshot_def snapshot_side_Inl)
next
  case (Inr lv)
  with assms have "\<not> list_all level_ok (no_dollars_fp s)" by (simp add: snapshot_side_Inr)
  then obtain e where "snapshot_side (no_dollars_fp s) (\<lambda>_. 0) = Inl e"
    by (cases "snapshot_side (no_dollars_fp s) (\<lambda>_. 0)") (simp_all add: snapshot_side_Inr)
  with Inr show ?thesis by (simp add: apply_snapshot_def snapshot_side_Inl)
qed

lemma apply_delta_ok_cases:
  assumes "apply_delta m delta = Some (r, m')"
  obtains (bad) e where "r = Inl e" "book_error_kind e = Malformed" "m' = m"
  | (stored) price qty raw where "delta_side delta = ''yes'' \<or> delta_side delta = ''no''"
      "parse_fixed 3 (price_dollars delta) = Some price" "1 \<le> price" "price < kMaxPrice"
      "parse_fixed 2 (delta_fp delta) = Some qty"
      "raw = delta_sum m delta price qty" "in_int64 raw"
      "r = (if raw < 0 then Inl (out_of_sync (delta_side delta) price) else Inr ())"
      "yes m' = (if delta_side delta = ''yes'' then (yes m)(price := max 0 raw) else yes m)"
      "no m' = (if delta_side delta = ''yes'' then no m else (no m)(price := max 0 raw))"
      "market_ticker m' = market_ticker m"
  using assms
proof (cases rule: apply_delta_cases)
  case (bad e)
  then show ?thesis by (rule that(1))
next
  case (on_yes price qty lv b)
  show ?thesis
    by (rule that(2) [of price qty "delta_sum m delta price qty"])
      (use on_yes in \<open>simp_all add: update_side_eq delta_sum_def parse_price_Inr parse_quantity_Inr
        kMaxPrice_def split: if_splits\<close>)
next
  case (on_no price qty lv b)
  show ?thesis
    by (rule that(2) [of price qty "delta_sum m delta price qty"])
      (use on_no in \<open>simp_all add: update_side_eq delta_sum_def parse_price_Inr parse_quantity_Inr
        kMaxPrice_def split: if_splits\<close>)
qed

section \<open>Properties\<close>

text \<open>
  C2. In every book a session can reach, the incrementally maintained top of book is the true
  one: the best YES bid is the highest price whose YES level is positive, the best YES ask is
  $1 minus the highest price whose NO level is positive, and each is absent exactly when its
  side has no positive level.
\<close>

theorem book_top_correct:
  assumes "book_reach m"
  shows "best_yes_bid m = top_bid (yes m) \<and>
         best_yes_ask m = map_option (\<lambda>p. kMaxPrice - p) (top_bid (no m))"
  using book_reach_inv [OF assms] by (simp add: book_inv_bid book_inv_ask)

text \<open>
  C28. What an accepted delta does: its price and size parse exactly, the addressed level is the
  old quantity plus the size, which is not negative, and every other level of both sides and
  the ticker are as before.
\<close>

theorem apply_delta_effect:
  assumes "apply_delta m delta = Some (Inr (), m')"
  shows "\<exists>price qty. parse_fixed 3 (price_dollars delta) = Some price \<and>
     1 \<le> price \<and> price < kMaxPrice \<and> parse_fixed 2 (delta_fp delta) = Some qty \<and>
     0 \<le> delta_sum m delta price qty \<and>
     yes m' = (if delta_side delta = ''yes'' then (yes m)(price := delta_sum m delta price qty) else yes m) \<and>
     no m' = (if delta_side delta = ''yes'' then no m else (no m)(price := delta_sum m delta price qty)) \<and>
     market_ticker m' = market_ticker m"
  using assms
proof (cases rule: apply_delta_ok_cases)
  case (stored price qty raw)
  then have "0 \<le> raw" by (simp split: if_splits)
  with stored show ?thesis by (intro exI [of _ price] exI [of _ qty]) (simp add: max_def)
qed simp

text \<open>
  C29. What a rejected delta does. Either the side, the price or the size is malformed and the
  book is untouched, or the size would drive its level below zero: then the error says so
  (\<open>OutOfSync\<close>), that level is clamped to zero, and every other level is as before.
\<close>

theorem apply_delta_reject:
  assumes "apply_delta m delta = Some (Inl e, m')"
  shows "(book_error_kind e = Malformed \<and> m' = m) \<or>
    (book_error_kind e = OutOfSync \<and>
     (\<exists>price qty. parse_fixed 3 (price_dollars delta) = Some price \<and>
        parse_fixed 2 (delta_fp delta) = Some qty \<and> delta_sum m delta price qty < 0 \<and>
        yes m' = (if delta_side delta = ''yes'' then (yes m)(price := 0) else yes m) \<and>
        no m' = (if delta_side delta = ''yes'' then no m else (no m)(price := 0))))"
  using assms
proof (cases rule: apply_delta_ok_cases)
  case (stored price qty raw)
  then have "raw < 0" "e = out_of_sync (delta_side delta) price" by (simp_all split: if_splits)
  with stored show ?thesis
    by (intro disjI2 conjI exI [of _ price] exI [of _ qty]) (simp_all add: out_of_sync_def max_def)
qed simp

text \<open>
  C27. A snapshot is all or nothing. If every level of both sides has a price of at least $0.001
  and below $1 and a size that parse exactly, the book becomes exactly the levels the snapshot
  lists, the last entry of a price winning; otherwise the error is \<open>Malformed\<close> and the whole
  book, its ticker included, is unchanged.
\<close>

theorem apply_snapshot_all_or_nothing:
  "if list_all level_ok (yes_dollars_fp s) \<and> list_all level_ok (no_dollars_fp s)
   then fst (apply_snapshot m s) = Inr () \<and>
        yes (snd (apply_snapshot m s)) = levels_of (yes_dollars_fp s) \<and>
        no (snd (apply_snapshot m s)) = levels_of (no_dollars_fp s) \<and>
        market_ticker (snd (apply_snapshot m s)) = snap_market_ticker s
   else \<exists>e. apply_snapshot m s = (Inl e, m) \<and> book_error_kind e = Malformed"
  using apply_snapshot_bad [of s m] by (simp add: apply_snapshot_eq)

section \<open>Prices on the wire\<close>

lemma int_part_digits: "list_all is_digit ds \<Longrightarrow> int_part (ds @ CHR ''.'' # fs) = ds"
  unfolding int_part_def by (induction ds) (auto dest: is_digit_not_special)

lemma frac_part_digits: "list_all is_digit ds \<Longrightarrow> frac_part (ds @ CHR ''.'' # fs) = fs"
  unfolding frac_part_def by (induction ds) (auto dest: is_digit_not_special)

lemma dec_negative_digits: "list_all is_digit ds \<Longrightarrow> ds \<noteq> [] \<Longrightarrow> \<not> dec_negative (ds @ r)"
  by (cases ds) (auto simp: dec_negative_def dest: is_digit_not_special)

lemma decimal_of_digits:
  assumes "list_all is_digit ds" "ds \<noteq> []" "list_all is_digit fs"
  shows "decimal_literal (ds @ CHR ''.'' # fs)"
    and "decimal_rat (ds @ CHR ''.'' # fs) =
      of_nat (digits_val ds) + of_nat (digits_val fs) / 10 ^ length fs"
proof -
  have b: "dec_body (ds @ CHR ''.'' # fs) = ds @ CHR ''.'' # fs"
    using dec_negative_digits [OF assms(1,2)] by (simp add: dec_body_def)
  show "decimal_literal (ds @ CHR ''.'' # fs)"
    unfolding decimal_literal_def b int_part_digits [OF assms(1)] frac_part_digits [OF assms(1)]
    using assms by simp
  show "decimal_rat (ds @ CHR ''.'' # fs) =
      of_nat (digits_val ds) + of_nat (digits_val fs) / 10 ^ length fs"
    unfolding decimal_rat_def b int_part_digits [OF assms(1)] frac_part_digits [OF assms(1)]
    using dec_negative_digits [OF assms(1,2)] by simp
qed

lemma price_to_dollars_nonneg:
  assumes "0 \<le> p"
  shows "price_to_dollars p =
    show_nat (nat (p div 1000)) @ CHR ''.'' # (show_padded 3 (nat (p mod 1000)) @ ''0'')"
proof -
  have "\<not> p div 1000 < 0" "\<not> p mod 1000 < 0" using assms by (simp_all add: not_less)
  then show ?thesis
    using assms
    by (simp add: price_to_dollars_def cdiv_nonneg cmod_nonneg kMaxPrice_def show_int_def
        show_int_padded_def)
qed

lemma parse_price_to_dollars:
  assumes "0 \<le> p" "p \<le> INT64_MAX"
  shows "parse_fixed 3 (price_to_dollars p) = Some p"
proof -
  let ?d = "nat (p div 1000)" and ?m = "nat (p mod 1000)"
  have m: "?m < 10 ^ 3" using assms(1) by (simp add: nat_less_iff)
  have fs: "list_all is_digit (show_padded 3 ?m @ ''0'')"
    using show_padded_digits [of 3 ?m] by simp
  have len: "length (show_padded 3 ?m @ ''0'') = 4"
    using length_show_padded [OF m] by simp
  have val: "digits_val (show_padded 3 ?m @ ''0'') = ?m * 10" by simp
  obtain n where n: "p = int n" using assms(1) nonneg_int_cases by blast
  then have dm: "?d = n div 1000" "?m = n mod 1000"
    by (simp_all add: nat_div_distrib nat_mod_distrib)
  have "(of_int p :: rat) = of_nat (n div 1000 * 1000 + n mod 1000)" by (simp only: div_mult_mod_eq n of_int_of_nat_eq)
  then have p: "(of_int p :: rat) = of_nat ?d * 1000 + of_nat ?m"
    unfolding dm by (simp only: of_nat_add of_nat_mult of_nat_numeral)
  note dec = decimal_of_digits [OF show_nat_digits show_nat_not_Nil fs, of ?d]
  have "decimal_rat (price_to_dollars p) * 10 ^ 3 = of_int p"
    unfolding price_to_dollars_nonneg [OF assms(1)] dec(2) len val p digits_val_show_nat by simp
  moreover have "decimal_literal (price_to_dollars p)"
    unfolding price_to_dollars_nonneg [OF assms(1)] by (rule dec(1))
  ultimately show ?thesis using assms by (simp add: parse_fixed_iff)
qed

text \<open>
  The wire format loses nothing: \<open>price_to_dollars\<close> of any non-negative price, as the order
  request carries it, is read back by \<open>parse_fixed<3>\<close> as that price.
\<close>

theorem price_wire_roundtrip:
  assumes "0 \<le> p" "p \<le> INT64_MAX"
  shows "parse_fixed kPriceDecimals (price_to_dollars p) = Some p"
  using parse_price_to_dollars [OF assms] by (simp add: kPriceDecimals_def)

theorem price_wire_roundtrip_witness:
  "price_to_dollars 595 = ''0.5950'' \<and> parse_fixed kPriceDecimals (price_to_dollars 595) = Some 595"
proof -
  have "price_to_dollars 595 = ''0.5950''" by code_simp
  then show ?thesis using price_wire_roundtrip [of 595] by (simp add: INT64_MAX_def)
qed

section \<open>Witnesses\<close>

definition sample_snapshot :: OrderBookSnapshot where
  "sample_snapshot =
     \<lparr>snap_market_ticker = ''T'', snap_market_id = ''id'',
      yes_dollars_fp = [(''0.4000'', ''10.00''), (''0.4500'', ''3.00'')],
      no_dollars_fp = [(''0.5000'', ''7.00''), (''0.5200'', ''1.00'')]\<rparr>"

definition sample_delta :: "string \<Rightarrow> OrderBookDelta" where
  "sample_delta qty =
     \<lparr>delta_market_ticker = ''T'', delta_market_id = ''id'', price_dollars = ''0.4500'',
      delta_fp = qty, delta_side = ''yes'', delta_ts = [], delta_ts_ms = 0\<rparr>"

definition sample_book :: MarketState where
  "sample_book = snd (apply_snapshot MarketState_init sample_snapshot)"

lemma sample_reach: "book_reach sample_book"
  unfolding sample_book_def
  by (rule book_snapshot [OF book_init, of sample_snapshot
        "fst (apply_snapshot MarketState_init sample_snapshot)"]) simp

lemma sample_values:
  "fst (apply_snapshot MarketState_init sample_snapshot) = Inr ()"
  "best_yes_bid sample_book = Some 450" "best_yes_ask sample_book = Some 480"
  "yes sample_book 400 = 1000" "yes sample_book 450 = 300"
  by code_simp+

theorem book_top_correct_witness:
  "book_reach sample_book \<and> top_bid (yes sample_book) = Some 450 \<and>
   map_option (\<lambda>p. kMaxPrice - p) (top_bid (no sample_book)) = Some 480"
  using book_top_correct [OF sample_reach] sample_values(2,3) sample_reach by simp

lemma sample_delta_ok:
  "map_option fst (apply_delta sample_book (sample_delta ''2.00'')) = Some (Inr ())"
  "parse_fixed 3 (price_dollars (sample_delta ''2.00'')) = Some 450"
  "parse_fixed 2 (delta_fp (sample_delta ''2.00'')) = Some 200"
  "delta_sum sample_book (sample_delta ''2.00'') 450 200 = 500"
  by code_simp+

theorem apply_delta_effect_witness:
  "\<exists>m'. apply_delta sample_book (sample_delta ''2.00'') = Some (Inr (), m') \<and>
     yes m' = (yes sample_book)(450 := 500) \<and> no m' = no sample_book"
proof -
  from sample_delta_ok(1) obtain m' where
    m': "apply_delta sample_book (sample_delta ''2.00'') = Some (Inr (), m')" by auto
  have "delta_side (sample_delta ''2.00'') = ''yes''" by (simp add: sample_delta_def)
  with apply_delta_effect [OF m'] sample_delta_ok(2-4)
  have "yes m' = (yes sample_book)(450 := 500) \<and> no m' = no sample_book" by auto
  with m' show ?thesis by blast
qed

lemma sample_delta_negative:
  "case apply_delta sample_book (sample_delta ''-5.00'') of
     Some (Inl e, m) \<Rightarrow> book_error_kind e = OutOfSync | _ \<Rightarrow> False"
  "parse_fixed 3 (price_dollars (sample_delta ''-5.00'')) = Some 450"
  by code_simp+

theorem apply_delta_reject_witness:
  "\<exists>e m'. apply_delta sample_book (sample_delta ''-5.00'') = Some (Inl e, m') \<and>
     book_error_kind e = OutOfSync \<and> yes m' = (yes sample_book)(450 := 0) \<and> no m' = no sample_book"
proof -
  from sample_delta_negative(1) obtain e m' where
    m': "apply_delta sample_book (sample_delta ''-5.00'') = Some (Inl e, m')"
    and k: "book_error_kind e = OutOfSync" by (auto split: option.splits prod.splits sum.splits)
  have "delta_side (sample_delta ''-5.00'') = ''yes''" by (simp add: sample_delta_def)
  with apply_delta_reject [OF m'] k sample_delta_negative(2)
  have "yes m' = (yes sample_book)(450 := 0) \<and> no m' = no sample_book" by auto
  with m' k show ?thesis by blast
qed

section \<open>Signed overflow\<close>

definition huge_snapshot :: OrderBookSnapshot where
  "huge_snapshot =
     \<lparr>snap_market_ticker = ''T'', snap_market_id = ''id'',
      yes_dollars_fp = [(''0.4500'', ''92233720368547758.07'')], no_dollars_fp = []\<rparr>"


text \<open>
  Below half the range there is no overflow: if the quantities of the book and the size of
  the delta are at most \<open>2^62\<close> in magnitude, \<open>apply_delta\<close> is defined.
\<close>

theorem apply_delta_defined:
  assumes "\<And>p. \<bar>yes m p\<bar> \<le> 2 ^ 62" "\<And>p. \<bar>no m p\<bar> \<le> 2 ^ 62"
    and "\<And>q. parse_fixed 2 (delta_fp delta) = Some q \<Longrightarrow> \<bar>q\<bar> < 2 ^ 62"
  shows "\<exists>r m'. apply_delta m delta = Some (r, m')"
proof (cases "parse_quantity (delta_fp delta)")
  case (Inr qty)
  then have q: "\<bar>qty\<bar> < 2 ^ 62" using assms(3) by (simp add: parse_quantity_Inr)
  have "in_int64 (yes m p + qty)" "in_int64 (no m p + qty)" for p
    using q assms(1,2) [of p] by (auto simp: in_int64_def INT64_MAX_def INT64_MIN_def)
  with Inr show ?thesis
    by (simp add: apply_delta_eq update_side_eq split: sum.split)
qed (simp add: apply_delta_eq split: sum.split)

theorem apply_delta_defined_witness:
  "\<exists>r m'. apply_delta MarketState_init (sample_delta ''2.00'') = Some (r, m')"
  by (rule apply_delta_defined) (simp_all add: MarketState_init_def sample_delta_ok)

end
