(* ===== verification/Doubles.thy ===== *)
theory Doubles
  imports Prelude Complex_Main
begin

text \<open>
  Floating-point arithmetic. What the program computes with \<open>double\<close> goes through a record of
  operations, one per operation of the source, which the definitions take as an argument: literals,
  conversion from integers, arithmetic, \<open>std::exp\<close>, comparison, truncation to an integer and
  formatting with one decimal. Theorems about limits and guards hold for every such record, so
  for every rounding; \<open>real_ops\<close> is exact arithmetic, for the statements about averages.
\<close>

record 'd double_ops =
  d_lit :: "rat \<Rightarrow> 'd"
  d_of_int :: "int \<Rightarrow> 'd"
  d_add :: "'d \<Rightarrow> 'd \<Rightarrow> 'd"
  d_sub :: "'d \<Rightarrow> 'd \<Rightarrow> 'd"
  d_mul :: "'d \<Rightarrow> 'd \<Rightarrow> 'd"
  d_div :: "'d \<Rightarrow> 'd \<Rightarrow> 'd"
  d_neg :: "'d \<Rightarrow> 'd"
  d_exp :: "'d \<Rightarrow> 'd"
  d_le :: "'d \<Rightarrow> 'd \<Rightarrow> bool"
  d_trunc :: "'d \<Rightarrow> int"
  d_fmt1 :: "'d \<Rightarrow> string"

definition real_ops :: "real double_ops" where
  "real_ops =
     \<lparr>d_lit = real_of_rat, d_of_int = real_of_int, d_add = (+), d_sub = (-), d_mul = (*), d_div = (/),
      d_neg = uminus, d_exp = exp, d_le = (\<le>), d_trunc = (\<lambda>x. if 0 \<le> x then \<lfloor>x\<rfloor> else \<lceil>x\<rceil>),
      d_fmt1 = (\<lambda>x. let t = round (x * 10) in
        (if t < 0 then ''-'' else []) @ show_int (\<bar>t\<bar> div 10) @ ''.'' @ show_int (\<bar>t\<bar> mod 10))\<rparr>"

lemma real_ops_simps [simp]:
  "d_lit real_ops = real_of_rat" "d_of_int real_ops = real_of_int" "d_add real_ops = (+)" "d_sub real_ops = (-)"
  "d_mul real_ops = (*)" "d_div real_ops = (/)" "d_neg real_ops = uminus" "d_exp real_ops = exp" "d_le real_ops = (\<le>)"
  "d_trunc real_ops = (\<lambda>x. if 0 \<le> x then \<lfloor>x\<rfloor> else \<lceil>x\<rceil>)"
  by (simp_all add: real_ops_def)

end
