(* ===== verification/Strategy.thy ===== *)
theory Strategy
  imports Market_State Doubles
begin

text \<open>
  \<open>include/strategy.hpp\<close> and \<open>src/trading/strategy.cpp\<close>: mean reversion against a time-decayed
  average of the mid price. Times are integers in nanoseconds. The average is computed with the
  \<open>double\<close> operations \<open>D\<close>. The additions of order size and exposure are signed 64-bit; where one
  overflows, \<open>on_book_update\<close> has no result.
\<close>

section \<open>Definitions\<close>

definition seconds :: "int \<Rightarrow> int" where
  "seconds n = n * 1000000000"

record StrategyConfig =
  ema_time_constant :: int
  warmup :: int
  entry_edge :: Price
  max_spread :: Price
  max_position :: Quantity
  order_size :: Quantity
  cooldown :: int

definition StrategyConfig_default :: StrategyConfig where
  "StrategyConfig_default =
     \<lparr>ema_time_constant = 60, warmup = 60, entry_edge = cents 3, max_spread = cents 4,
      max_position = 5, order_size = 1, cooldown = 5\<rparr>"

record Signal =
  sig_side :: OrderSide
  sig_price :: Price
  sig_count :: Quantity

record 'd Strategy =
  st_config :: StrategyConfig
  st_ema :: "'d option"
  st_first_update :: int
  st_last_update :: int
  st_last_order :: "int option"

definition Strategy_init :: "StrategyConfig \<Rightarrow> 'd Strategy" where
  "Strategy_init config =
     \<lparr>st_config = config, st_ema = None, st_first_update = 0, st_last_update = 0, st_last_order = None\<rparr>"

text \<open>The new average and the state that holds it.\<close>

definition update_ema :: "'d double_ops \<Rightarrow> 'd Strategy \<Rightarrow> 'd \<Rightarrow> int \<Rightarrow> 'd \<times> 'd Strategy" where
  "update_ema D s mid now =
     (case st_ema s of
        None \<Rightarrow> (mid, s\<lparr>st_ema := Some mid, st_first_update := now, st_last_update := now\<rparr>)
      | Some ema \<Rightarrow>
          let dt = d_div D (d_of_int D (now - st_last_update s)) (d_lit D 1000000000);
              tau = d_of_int D (ema_time_constant (st_config s));
              alpha = d_sub D (d_lit D 1) (d_exp D (d_div D (d_neg D dt) tau));
              ema' = d_add D ema (d_mul D alpha (d_sub D mid ema)) in
          (ema', s\<lparr>st_ema := Some ema', st_last_update := now\<rparr>))"

definition sell_signal :: "'d double_ops \<Rightarrow> StrategyConfig \<Rightarrow> Price \<Rightarrow> 'd \<Rightarrow> Quantity \<Rightarrow> Signal option option" where
  "sell_signal D cfg bid ema exposure =
     (if d_le D (d_add D ema (d_of_int D (entry_edge cfg))) (d_of_int D bid) then
        (case sub64 exposure (order_size cfg) of
           None \<Rightarrow> None
         | Some after \<Rightarrow>
             Some (if after \<ge> - max_position cfg
                   then Some \<lparr>sig_side = Ask, sig_price = bid, sig_count = order_size cfg\<rparr> else None))
      else Some None)"

definition decide :: "'d double_ops \<Rightarrow> StrategyConfig \<Rightarrow> Price \<Rightarrow> Price \<Rightarrow> 'd \<Rightarrow> Quantity \<Rightarrow> Signal option option" where
  "decide D cfg bid ask ema exposure =
     (if d_le D (d_of_int D ask) (d_sub D ema (d_of_int D (entry_edge cfg))) then
        (case add64 exposure (order_size cfg) of
           None \<Rightarrow> None
         | Some after \<Rightarrow>
             if after \<le> max_position cfg
             then Some (Some \<lparr>sig_side = Bid, sig_price = ask, sig_count = order_size cfg\<rparr>)
             else sell_signal D cfg bid ema exposure)
      else sell_signal D cfg bid ema exposure)"

definition on_book_update ::
  "'d double_ops \<Rightarrow> 'd Strategy \<Rightarrow> MarketState \<Rightarrow> Quantity \<Rightarrow> int \<Rightarrow> (Signal option \<times> 'd Strategy) option" where
  "on_book_update D s book exposure now =
     (case (best_yes_bid book, best_yes_ask book) of
        (Some bid, Some ask) \<Rightarrow>
          if ask \<le> bid then Some (None, s)
          else
            let mid = d_div D (d_of_int D (bid + ask)) (d_lit D 2);
                (ema, s') = update_ema D s mid now;
                cfg = st_config s in
            if now - st_first_update s' < seconds (warmup cfg) then Some (None, s')
            else if ask - bid > max_spread cfg then Some (None, s')
            else if (case st_last_order s' of None \<Rightarrow> False | Some t \<Rightarrow> now - t < seconds (cooldown cfg)) then Some (None, s')
            else
              map_option
                (\<lambda>signal. (signal, case signal of None \<Rightarrow> s' | Some _ \<Rightarrow> s'\<lparr>st_last_order := Some now\<rparr>))
                (decide D cfg bid ask ema exposure)
      | _ \<Rightarrow> Some (None, s))"

definition make_ioc_order :: "string \<Rightarrow> Signal \<Rightarrow> string \<Rightarrow> OrderRequest" where
  "make_ioc_order ticker signal client_order_id =
     \<lparr>req_ticker = ticker, req_side = sig_side signal, req_count = show_int (sig_count signal) @ ''.00'',
      req_price = price_to_dollars (sig_price signal), req_time_in_force = ImmediateOrCancel,
      req_self_trade_prevention = TakerAtCross, req_client_order_id = client_order_id, req_post_only = False\<rparr>"

section \<open>What a signal guarantees\<close>

lemma update_ema_keeps:
  assumes "update_ema D s mid now = (ema, s1)"
  shows "st_config s1 = st_config s" "st_last_order s1 = st_last_order s" "st_last_update s1 = now" "st_ema s1 = Some ema"
  using assms by (auto simp: update_ema_def Let_def split: option.splits)

definition within_limits :: "StrategyConfig \<Rightarrow> Quantity \<Rightarrow> Price \<Rightarrow> Price \<Rightarrow> Signal \<Rightarrow> bool" where
  "within_limits cfg exposure bid ask signal \<longleftrightarrow>
     sig_count signal = order_size cfg \<and>
     (case sig_side signal of
        Bid \<Rightarrow> sig_price signal = ask \<and> exposure + order_size cfg \<le> max_position cfg
      | Ask \<Rightarrow> sig_price signal = bid \<and> - max_position cfg \<le> exposure - order_size cfg)"

lemma decide_within_limits: "decide D cfg bid ask ema exposure = Some (Some signal) \<Longrightarrow> within_limits cfg exposure bid ask signal"
  by (auto simp: decide_def sell_signal_def within_limits_def add64_def sub64_def split: if_splits)

text \<open>The guards that hold back a decision on an uncrossed book.\<close>

definition held_back :: "'d Strategy \<Rightarrow> StrategyConfig \<Rightarrow> Price \<Rightarrow> Price \<Rightarrow> int \<Rightarrow> bool" where
  "held_back s1 cfg bid ask now \<longleftrightarrow>
     now - st_first_update s1 < seconds (warmup cfg) \<or> ask - bid > max_spread cfg \<or>
     (\<exists>t. st_last_order s1 = Some t \<and> now - t < seconds (cooldown cfg))"

lemma on_book_update_run:
  assumes "best_yes_bid book = Some bid" "best_yes_ask book = Some ask"
    "update_ema D s (d_div D (d_of_int D (bid + ask)) (d_lit D 2)) now = (ema, s1)"
  shows "on_book_update D s book exposure now =
      (if ask \<le> bid then Some (None, s) else if held_back s1 (st_config s) bid ask now then Some (None, s1)
       else map_option (\<lambda>signal. (signal, case signal of None \<Rightarrow> s1 | Some _ \<Rightarrow> s1\<lparr>st_last_order := Some now\<rparr>))
         (decide D (st_config s) bid ask ema exposure))"
  using assms by (auto simp: on_book_update_def Let_def held_back_def split: option.split)

lemma on_book_updateE:
  assumes "on_book_update D s book exposure now = Some (r, s')"
  obtains (idle) "r = None" "s' = s"
  | (seen) bid ask ema s1 where "best_yes_bid book = Some bid" "best_yes_ask book = Some ask" "bid < ask"
      "update_ema D s (d_div D (d_of_int D (bid + ask)) (d_lit D 2)) now = (ema, s1)"
      "r = None" "s' = s1"
  | (trade) bid ask ema s1 signal where "best_yes_bid book = Some bid" "best_yes_ask book = Some ask" "bid < ask"
      "update_ema D s (d_div D (d_of_int D (bid + ask)) (d_lit D 2)) now = (ema, s1)"
      "seconds (warmup (st_config s)) \<le> now - st_first_update s1" "ask - bid \<le> max_spread (st_config s)"
      "\<And>t. st_last_order s1 = Some t \<Longrightarrow> seconds (cooldown (st_config s)) \<le> now - t"
      "decide D (st_config s) bid ask ema exposure = Some (Some signal)"
      "r = Some signal" "s' = s1\<lparr>st_last_order := Some now\<rparr>"
proof (cases "best_yes_bid book")
  case None
  with assms idle show ?thesis by (simp add: on_book_update_def)
next
  case (Some bid)
  note b = this
  show ?thesis
  proof (cases "best_yes_ask book")
    case None
    with b assms idle show ?thesis by (simp add: on_book_update_def)
  next
    case (Some ask)
    obtain ema s1 where u: "update_ema D s (d_div D (d_of_int D (bid + ask)) (d_lit D 2)) now = (ema, s1)"
      by (cases "update_ema D s (d_div D (d_of_int D (bid + ask)) (d_lit D 2)) now")
    let ?held = "held_back s1 (st_config s) bid ask now"
    note run = on_book_update_run [OF b Some u, of exposure]
    consider "ask \<le> bid" | "bid < ask" ?held | "bid < ask" "\<not> ?held" by fastforce
    then show ?thesis
    proof cases
      case 1
      with run assms idle show ?thesis by simp
    next
      case 2
      with run assms seen [OF b Some _ u] show ?thesis by simp
    next
      case 3
      from 3 run assms have d: "decide D (st_config s) bid ask ema exposure = Some r"
        "s' = (case r of None \<Rightarrow> s1 | Some _ \<Rightarrow> s1\<lparr>st_last_order := Some now\<rparr>)"
        by (cases "decide D (st_config s) bid ask ema exposure"; simp)+
      show ?thesis
      proof (cases r)
        case None
        with 3 d seen [OF b Some _ u] show ?thesis by simp
      next
        case (Some signal)
        with 3 d show ?thesis
          by (intro trade [OF b \<open>best_yes_ask book = Some ask\<close> _ u]) (auto simp: held_back_def)
      qed
    qed
  qed
qed

lemma signal_limits:
  assumes "on_book_update D s book exposure now = Some (Some signal, s')"
  shows "\<exists>bid ask. within_limits (st_config s) exposure bid ask signal"
  using assms by (cases rule: on_book_updateE) (auto dest: decide_within_limits)

text \<open>A sequence of book updates: the times at which they produced signals, and the state after them.\<close>

fun strategy_run ::
  "'d double_ops \<Rightarrow> (MarketState \<times> Quantity \<times> int) list \<Rightarrow> 'd Strategy \<Rightarrow> ((int \<times> Signal) list \<times> 'd Strategy) option" where
  "strategy_run D [] s = Some ([], s)"
| "strategy_run D ((book, exposure, now) # us) s =
     (case on_book_update D s book exposure now of
        None \<Rightarrow> None
      | Some (signal, s') \<Rightarrow>
          map_option (\<lambda>(sigs, s''). (case signal of None \<Rightarrow> sigs | Some x \<Rightarrow> (now, x) # sigs, s''))
            (strategy_run D us s'))"

lemma on_book_update_config:
  assumes "on_book_update D s book exposure now = Some (r, s')"
  shows "st_config s' = st_config s"
  using assms by (cases rule: on_book_updateE) (simp_all add: update_ema_keeps)

lemma on_book_update_last_order:
  assumes "on_book_update D s book exposure now = Some (r, s')"
  shows "case r of
      None \<Rightarrow> st_last_order s' = st_last_order s
    | Some _ \<Rightarrow> st_last_order s' = Some now \<and> (\<forall>t. st_last_order s = Some t \<longrightarrow> seconds (cooldown (st_config s)) \<le> now - t)"
  using assms by (cases rule: on_book_updateE) (simp_all add: update_ema_keeps)

section \<open>The average in exact arithmetic\<close>

lemma average_between:
  fixes a :: real
  assumes "0 \<le> a" "a \<le> 1" "lo \<le> x" "x \<le> hi" "lo \<le> y" "y \<le> hi"
  shows "lo \<le> x + a * (y - x)" "x + a * (y - x) \<le> hi"
proof -
  have mix: "x + a * (y - x) = (1 - a) * x + a * y" by (simp add: algebra_simps)
  show "x + a * (y - x) \<le> hi" unfolding mix using assms by (intro convex_bound_le) simp_all
  have "(1 - a) * - x + a * - y \<le> - lo" using assms by (intro convex_bound_le) simp_all
  then show "lo \<le> x + a * (y - x)" unfolding mix by simp
qed

definition ema_between :: "real \<Rightarrow> real \<Rightarrow> real Strategy \<Rightarrow> bool" where
  "ema_between lo hi s \<longleftrightarrow> (\<forall>v. st_ema s = Some v \<longrightarrow> lo \<le> v \<and> v \<le> hi)"

lemma update_ema_between:
  assumes "update_ema real_ops s mid now = (ema, s1)" and "ema_between lo hi s" and "lo \<le> mid" "mid \<le> hi"
    and "st_ema s \<noteq> None \<longrightarrow> st_last_update s \<le> now" and "0 < ema_time_constant (st_config s)"
  shows "ema_between lo hi s1"
proof (cases "st_ema s")
  case None
  with assms show ?thesis by (auto simp: update_ema_def ema_between_def)
next
  case (Some v)
  define a where "a = 1 - exp (- (real_of_int (now - st_last_update s) / 1000000000) / real_of_int (ema_time_constant (st_config s)))"
  have "0 \<le> real_of_int (now - st_last_update s) / 1000000000 / real_of_int (ema_time_constant (st_config s))"
    using assms(5,6) Some by simp
  then have "0 \<le> a" "a \<le> 1" by (simp_all add: a_def)
  with average_between [of a lo v hi mid] assms(1-4) Some show ?thesis
    by (auto simp: update_ema_def ema_between_def a_def Let_def)
qed

definition mids_between :: "real \<Rightarrow> real \<Rightarrow> MarketState \<Rightarrow> bool" where
  "mids_between lo hi book \<longleftrightarrow> (\<forall>bid ask. best_yes_bid book = Some bid \<longrightarrow> best_yes_ask book = Some ask \<longrightarrow> bid < ask \<longrightarrow>
     lo \<le> real_of_int (bid + ask) / 2 \<and> real_of_int (bid + ask) / 2 \<le> hi)"

lemma on_book_update_between:
  assumes "on_book_update real_ops s book exposure now = Some (r, s')" and "ema_between lo hi s" and "mids_between lo hi book"
    and "st_ema s \<noteq> None \<longrightarrow> st_last_update s \<le> now" and "0 < ema_time_constant (st_config s)"
  shows "ema_between lo hi s' \<and> (st_ema s' \<noteq> None \<longrightarrow> st_last_update s' \<le> now)"
  using assms(1)
proof (cases rule: on_book_updateE)
  case idle
  with assms show ?thesis by simp
next
  case (seen bid ask ema s1)
  with assms(3) update_ema_between [OF seen(4) assms(2) _ _ assms(4,5)] update_ema_keeps [OF seen(4)] show ?thesis
    by (simp add: mids_between_def)
next
  case (trade bid ask ema s1 signal)
  with assms(3) update_ema_between [OF trade(4) assms(2) _ _ assms(4,5)] update_ema_keeps [OF trade(4)] show ?thesis
    by (simp add: mids_between_def ema_between_def)
qed

lemma strategy_run_between:
  assumes "strategy_run real_ops us s = Some (sigs, s')" and "ema_between lo hi s"
    and "\<forall>(book, _) \<in> set us. mids_between lo hi book"
    and "sorted ((if st_ema s = None then [] else [st_last_update s]) @ map (snd \<circ> snd) us)"
    and "0 < ema_time_constant (st_config s)"
  shows "ema_between lo hi s'"
  using assms
proof (induction us arbitrary: s sigs)
  case Nil
  then show ?case by simp
next
  case (Cons u us)
  obtain book exposure now where u: "u = (book, exposure, now)" by (cases u)
  from Cons.prems(1) obtain r s1 sigs1 where one: "on_book_update real_ops s book exposure now = Some (r, s1)"
    and rest: "strategy_run real_ops us s1 = Some (sigs1, s')"
    by (auto simp: u split: option.splits)
  have "st_ema s \<noteq> None \<longrightarrow> st_last_update s \<le> now" using Cons.prems(4) by (auto simp: u)
  from on_book_update_between [OF one Cons.prems(2) _ this Cons.prems(5)] Cons.prems(3)
  have b: "ema_between lo hi s1" "st_ema s1 \<noteq> None \<longrightarrow> st_last_update s1 \<le> now" by (auto simp: u)
  have "sorted ((if st_ema s1 = None then [] else [st_last_update s1]) @ map (snd \<circ> snd) us)"
  proof -
    have "sorted (now # map (snd \<circ> snd) us)" using Cons.prems(4) by (simp add: u sorted_append comp_def)
    then show ?thesis using b(2) by (cases "st_ema s1") (auto intro: order_trans)
  qed
  with Cons.IH [OF rest b(1)] Cons.prems(3,5) on_book_update_config [OF one] show ?case by (simp add: comp_def)
qed

section \<open>Properties\<close>

text \<open>
  C11. Every signal respects the configured limits, whatever the rounding of the average: it trades the
  configured size at the current touch of a two-sided, uncrossed book whose spread is at most the maximum,
  after the warm-up and the cooldown, and if it fills completely the exposure does not pass the position limit.
\<close>

theorem signal_within_limits:
  assumes "on_book_update D s book exposure now = Some (Some signal, s')"
  shows "\<exists>bid ask. best_yes_bid book = Some bid \<and> best_yes_ask book = Some ask \<and> bid < ask \<and>
    ask - bid \<le> max_spread (st_config s) \<and>
    sig_count signal = order_size (st_config s) \<and>
    (case sig_side signal of
       Bid \<Rightarrow> sig_price signal = ask \<and> exposure + sig_count signal \<le> max_position (st_config s)
     | Ask \<Rightarrow> sig_price signal = bid \<and> - max_position (st_config s) \<le> exposure - sig_count signal) \<and>
    seconds (warmup (st_config s)) \<le> now - st_first_update s' \<and>
    (\<forall>t. st_last_order s = Some t \<longrightarrow> seconds (cooldown (st_config s)) \<le> now - t)"
  using assms
proof (cases rule: on_book_updateE)
  case (trade bid ask ema s1 sg)
  from decide_within_limits [OF trade(8)] trade on_book_update_last_order [OF assms] show ?thesis
    by (auto simp: within_limits_def split: OrderSide.splits)
qed simp_all

text \<open>
  C37. Orders are paced: over any sequence of book updates, two successive signals are at least the
  cooldown apart, and so is the first one from an order before the sequence.
\<close>

theorem signals_spaced:
  assumes "strategy_run D us s = Some (sigs, s')"
  shows "successively (\<lambda>t t'. seconds (cooldown (st_config s)) \<le> t' - t)
    ((case st_last_order s of None \<Rightarrow> [] | Some t \<Rightarrow> [t]) @ map fst sigs)"
  using assms
proof (induction D us s arbitrary: sigs s' rule: strategy_run.induct)
  case (1 D s)
  then show ?case by (auto split: option.split)
next
  case (2 D book exposure now us s)
  from "2.prems" obtain r s1 sigs1 where one: "on_book_update D s book exposure now = Some (r, s1)"
    and rest: "strategy_run D us s1 = Some (sigs1, s')"
    and sigs: "sigs = (case r of None \<Rightarrow> sigs1 | Some x \<Rightarrow> (now, x) # sigs1)"
    by (auto split: option.splits)
  from "2.IH" [OF one refl rest] on_book_update_config [OF one] on_book_update_last_order [OF one] show ?case
    by (cases r; cases "st_last_order s") (auto simp: sigs)
qed

text \<open>
  C38. The fair value is a price: in exact arithmetic, over any sequence of updates with books a
  session can reach and times that do not go back, the average stays between the lowest and the
  highest price of a contract, above 0 and below $1.
\<close>

theorem fair_value_is_a_price:
  assumes "strategy_run real_ops us (Strategy_init cfg) = Some (sigs, s')"
    and "\<forall>(book, _) \<in> set us. book_reach book" and "sorted (map (snd \<circ> snd) us)"
    and "0 < ema_time_constant cfg" and "st_ema s' = Some v"
  shows "1 \<le> v \<and> v \<le> real_of_int (kMaxPrice - 1)"
proof -
  have "mids_between 1 (real_of_int (kMaxPrice - 1)) book" if "book_reach book" for book
    using book.bid_range [OF book_reach_inv [OF that]] book.ask_range [OF book_reach_inv [OF that]]
    by (fastforce simp: mids_between_def)
  with assms(2) have "\<forall>(book, _) \<in> set us. mids_between 1 (real_of_int (kMaxPrice - 1)) book" by blast
  from strategy_run_between [OF assms(1) _ this] assms(3-5) show ?thesis
    by (simp add: Strategy_init_def ema_between_def)
qed

definition eager :: StrategyConfig where
  "eager = StrategyConfig_default\<lparr>warmup := 0, entry_edge := - 1000, max_spread := 1000\<rparr>"

lemma eager_simps [simp]:
  "warmup eager = 0" "entry_edge eager = - 1000" "max_spread eager = 1000" "max_position eager = 5"
  "order_size eager = 1" "cooldown eager = 5" "ema_time_constant eager = 60"
  by (simp_all add: eager_def StrategyConfig_default_def)

lemma sample_signal:
  "on_book_update real_ops (Strategy_init eager) sample_book 0 7 =
     Some (Some \<lparr>sig_side = Bid, sig_price = 480, sig_count = 1\<rparr>,
       \<lparr>st_config = eager, st_ema = Some 465, st_first_update = 7, st_last_update = 7, st_last_order = Some 7\<rparr>)"
  by (simp add: on_book_update_def sample_values(2,3) Strategy_init_def update_ema_def seconds_def decide_def add64_def
      in_int64_def INT64_MAX_def INT64_MIN_def)

theorem signal_within_limits_witness:
  "\<exists>signal s'. on_book_update real_ops (Strategy_init eager) sample_book 0 7 = Some (Some signal, s') \<and>
     sig_side signal = Bid \<and> 0 + sig_count signal \<le> 5 \<and> sig_count signal = 1"
  using signal_within_limits [OF sample_signal] sample_signal by (simp add: Strategy_init_def)

lemma sample_run:
  "strategy_run real_ops [(sample_book, 0, 7), (sample_book, 1, 8), (sample_book, 1, 5000000007)] (Strategy_init eager) =
     Some ([(7, \<lparr>sig_side = Bid, sig_price = 480, sig_count = 1\<rparr>), (5000000007, \<lparr>sig_side = Bid, sig_price = 480, sig_count = 1\<rparr>)],
       \<lparr>st_config = eager, st_ema = Some 465, st_first_update = 7, st_last_update = 5000000007, st_last_order = Some 5000000007\<rparr>)"
  by (simp add: sample_signal, simp add: on_book_update_def sample_values(2,3) update_ema_def Let_def seconds_def decide_def
      add64_def in_int64_def INT64_MAX_def INT64_MIN_def)

theorem signals_spaced_witness:
  "\<exists>sigs s'. strategy_run real_ops [(sample_book, 0, 7), (sample_book, 1, 8), (sample_book, 1, 5000000007)] (Strategy_init eager) =
      Some (sigs, s') \<and> successively (\<lambda>t t'. 5000000000 \<le> t' - t) (map fst sigs) \<and> length sigs = 2"
  using signals_spaced [OF sample_run] sample_run by (simp add: Strategy_init_def seconds_def)

theorem fair_value_is_a_price_witness:
  "\<exists>sigs s'. strategy_run real_ops [(sample_book, 0, 7), (sample_book, 1, 8), (sample_book, 1, 5000000007)] (Strategy_init eager) =
      Some (sigs, s') \<and> (\<exists>v. st_ema s' = Some v \<and> 1 \<le> v \<and> v \<le> real_of_int (kMaxPrice - 1))"
  using fair_value_is_a_price [OF sample_run] sample_run sample_reach by simp

end
