(* ===== verification/Trackers.thy ===== *)
theory Trackers
  imports Doubles Messages "HOL-Library.Multiset"
begin

text \<open>
  The book-keeping of the bot: \<open>include/order_tracker.hpp\<close>, \<open>include/position_tracker.hpp\<close> and
  \<open>include/latency_stats.hpp\<close>. An \<open>unordered_map\<close> that is only looked up and updated by key is a
  map. Positions are int64; an update that overflows has no result.
\<close>

section \<open>Definitions\<close>

subsection \<open>Orders\<close>

datatype OrderStatus = Pending | Open | Filled | Cancelled

record Order =
  order_id :: string
  order_request :: OrderRequest
  order_status :: OrderStatus
  fill_count :: string
  remaining_count :: string

type_synonym OrderTracker = "string \<rightharpoonup> Order"

definition get_order :: "OrderTracker \<Rightarrow> string \<Rightarrow> Order option" where
  "get_order t oid = t oid"

definition add_order :: "Order \<Rightarrow> OrderTracker \<Rightarrow> OrderTracker" where
  "add_order order t = (case t (order_id order) of None \<Rightarrow> t(order_id order \<mapsto> order) | Some _ \<Rightarrow> t)"

definition update_status :: "string \<Rightarrow> OrderStatus \<Rightarrow> OrderTracker \<Rightarrow> OrderTracker" where
  "update_status oid s t = (case t oid of None \<Rightarrow> t | Some ord \<Rightarrow> t(oid \<mapsto> ord\<lparr>order_status := s\<rparr>))"

subsection \<open>Positions\<close>

type_synonym PositionTracker = "string \<rightharpoonup> int"

definition get_position :: "PositionTracker \<Rightarrow> string \<Rightarrow> int" where
  "get_position t ticker = (case t ticker of None \<Rightarrow> 0 | Some q \<Rightarrow> q)"

definition update_positions :: "string \<Rightarrow> int \<Rightarrow> PositionTracker \<Rightarrow> PositionTracker option" where
  "update_positions ticker quantity t =
     map_option (\<lambda>q. t(ticker \<mapsto> q)) (add64 (get_position t ticker) quantity)"

subsection \<open>Latencies\<close>

definition kCapacity :: nat where
  "kCapacity = 2 ^ 16"

record LatencyStats =
  ls_name :: string
  samples_ns :: "int list"
  ls_next :: nat
  ls_count :: nat

definition LatencyStats_init :: "string \<Rightarrow> LatencyStats" where
  "LatencyStats_init name = \<lparr>ls_name = name, samples_ns = [], ls_next = 0, ls_count = 0\<rparr>"

definition record_sample :: "int \<Rightarrow> LatencyStats \<Rightarrow> LatencyStats" where
  "record_sample ns s =
     s\<lparr>samples_ns := (if length (samples_ns s) < kCapacity then samples_ns s @ [ns] else (samples_ns s)[ls_next s := ns]),
       ls_next := (ls_next s + 1) mod kCapacity,
       ls_count := (ls_count s + 1) mod 2 ^ 64\<rparr>"

definition pretty :: "'d double_ops \<Rightarrow> int \<Rightarrow> string" where
  "pretty D ns =
     (if ns < 1000 then show_int ns @ ''ns''
      else if ns < 1000000 then d_fmt1 D (d_div D (d_of_int D ns) (d_lit D 1000)) @ ''us''
      else d_fmt1 D (d_div D (d_of_int D ns) (d_lit D 1000000)) @ ''ms'')"

definition pad :: "nat \<Rightarrow> string \<Rightarrow> string" where
  "pad width s = s @ replicate (width - length s) (CHR '' '')"

definition rank :: "'d double_ops \<Rightarrow> nat \<Rightarrow> rat \<Rightarrow> nat" where
  "rank D n p = nat (d_trunc D (d_mul D (d_lit D p) (d_of_int D (int (n - 1)))))"

definition pct :: "'d double_ops \<Rightarrow> int list \<Rightarrow> rat \<Rightarrow> int" where
  "pct D sorted_ns p = sorted_ns ! rank D (length sorted_ns) p"

definition summary :: "'d double_ops \<Rightarrow> LatencyStats \<Rightarrow> string" where
  "summary D s =
     (if samples_ns s = [] then pad 22 (ls_name s) @ '' no samples''
      else
        let sorted_ns = sort (samples_ns s) in
        pad 22 (ls_name s) @ '' n='' @ pad 7 (show_nat (ls_count s)) @
        '' p50='' @ pad 9 (pretty D (pct D sorted_ns (1 / 2))) @
        '' p90='' @ pad 9 (pretty D (pct D sorted_ns (9 / 10))) @
        '' p99='' @ pad 9 (pretty D (pct D sorted_ns (99 / 100))) @
        '' max='' @ pretty D (last sorted_ns))"

section \<open>The ring buffer holds the most recent samples\<close>

text \<open>The samples in the order they were recorded, oldest first.\<close>

definition recent :: "LatencyStats \<Rightarrow> int list" where
  "recent s =
     (if length (samples_ns s) < kCapacity then samples_ns s
      else drop (ls_next s) (samples_ns s) @ take (ls_next s) (samples_ns s))"

text \<open>The specification: a window of the last \<open>kCapacity\<close> samples.\<close>

definition window_record :: "int \<Rightarrow> int list \<Rightarrow> int list" where
  "window_record ns xs = drop (length xs + 1 - kCapacity) (xs @ [ns])"

definition ring_inv :: "LatencyStats \<Rightarrow> bool" where
  "ring_inv s \<longleftrightarrow> length (samples_ns s) \<le> kCapacity \<and> ls_next s < kCapacity \<and>
     (length (samples_ns s) < kCapacity \<longrightarrow> ls_next s = length (samples_ns s))"

lemma kCapacity_pos [simp]: "0 < kCapacity"
  by (simp add: kCapacity_def)

lemma ring_inv_init [wf_preserve]: "ring_inv (LatencyStats_init name)"
  by (simp add: ring_inv_def LatencyStats_init_def)

lemma ring_inv_record [wf_preserve]: "ring_inv s \<Longrightarrow> ring_inv (record_sample ns s)"
  by (auto simp: ring_inv_def record_sample_def mod_if)

lemma length_recent: "ring_inv s \<Longrightarrow> length (recent s) = length (samples_ns s)"
  by (auto simp: recent_def ring_inv_def)

lemma mset_recent: "mset (recent s) = mset (samples_ns s)"
  by (simp add: recent_def flip: mset_append)
    (metis append_take_drop_id mset_append union_commute)

lemma recent_record:
  assumes "ring_inv s"
  shows "recent (record_sample ns s) = window_record ns (recent s)"
proof -
  let ?xs = "samples_ns s" and ?n = "ls_next s"
  consider "length ?xs < kCapacity" "?n = length ?xs" | "length ?xs = kCapacity" "?n < kCapacity"
    using assms by (auto simp: ring_inv_def le_less)
  then show ?thesis
  proof cases
    case 1
    then show ?thesis
      by (cases "Suc (length ?xs) = kCapacity") (auto simp: recent_def record_sample_def window_record_def)
  next
    case 2
    then have n: "?n < length ?xs" by simp
    have w: "window_record ns (recent s) = drop (Suc ?n) ?xs @ take ?n ?xs @ [ns]"
      using 2 by (simp add: window_record_def recent_def drop_Suc drop_tl)
    have upd: "?xs[?n := ns] = take ?n ?xs @ ns # drop (Suc ?n) ?xs" using n by (rule upd_conv_take_nth_drop)
    have len: "length (take ?n ?xs) = ?n" using n by simp
    show ?thesis
    proof (cases "Suc ?n = kCapacity")
      case True
      with 2 have "drop (Suc ?n) ?xs = []" by simp
      with True 2 w upd show ?thesis by (simp add: recent_def record_sample_def)
    next
      case False
      with 2 have "Suc ?n mod kCapacity = Suc ?n" by simp
      with False 2 w upd len show ?thesis by (simp add: recent_def record_sample_def)
    qed
  qed
qed

text \<open>What the \<open>n\<close>-th update does to the totals; order and status lookups.\<close>

lemma get_position_update:
  "update_positions ticker q t = Some t' \<Longrightarrow>
     get_position t' x = get_position t x + (if x = ticker then q else 0)"
  by (auto simp: update_positions_def get_position_def add64_def split: if_splits)

section \<open>Properties\<close>

text \<open>
  C33. The latency buffer is the window of the most recent samples: recording a sample refines
  appending it to the list of samples and dropping the oldest beyond the capacity. Starting empty,
  the buffer always holds the last \<open>kCapacity\<close> samples recorded, and the counter counts all of them.
\<close>

theorem latency_window:
  "recent (fold record_sample ds (LatencyStats_init name)) = drop (length ds - kCapacity) ds \<and>
   ls_count (fold record_sample ds (LatencyStats_init name)) = length ds mod 2 ^ 64"
proof -
  let ?s = "\<lambda>ds. fold record_sample ds (LatencyStats_init name)"
  have inv: "ring_inv (?s ds)" for ds
    by (induction ds rule: rev_induct) (simp_all add: wf_preserve)
  have "recent (?s ds) = drop (length ds - kCapacity) ds"
  proof (induction ds rule: rev_induct)
    case Nil
    then show ?case by (simp add: recent_def LatencyStats_init_def)
  next
    case (snoc d ds)
    then show ?case
      using recent_record [OF inv, of d ds]
      by (cases "kCapacity \<le> length ds") (auto simp: window_record_def Suc_diff_le)
  qed
  moreover have "ls_count (?s ds) = length ds mod 2 ^ 64"
    by (induction ds rule: rev_induct) (simp_all add: record_sample_def LatencyStats_init_def mod_Suc_eq)
  ultimately show ?thesis ..
qed

text \<open>
  The percentiles of a summary are samples of the window, and they are ordered: if truncation
  gives the three ranks within the window in order, then the median is at most the 90th percentile, that
  is at most the 99th, and that is at most the maximum.
\<close>

definition ranks_ok :: "'d double_ops \<Rightarrow> nat \<Rightarrow> bool" where
  "ranks_ok D n \<longleftrightarrow>
     rank D n (1 / 2) \<le> rank D n (9 / 10) \<and> rank D n (9 / 10) \<le> rank D n (99 / 100) \<and> rank D n (99 / 100) < n"

theorem latency_percentiles:
  assumes "samples_ns s \<noteq> []" and "ranks_ok D (length (samples_ns s))"
  shows "let sorted_ns = sort (samples_ns s) in
    set (map (pct D sorted_ns) [1 / 2, 9 / 10, 99 / 100]) \<subseteq> set (recent s) \<and>
    pct D sorted_ns (1 / 2) \<le> pct D sorted_ns (9 / 10) \<and>
    pct D sorted_ns (9 / 10) \<le> pct D sorted_ns (99 / 100) \<and>
    pct D sorted_ns (99 / 100) \<le> last sorted_ns \<and> last sorted_ns = Max (set (recent s))"
proof -
  let ?xs = "sort (samples_ns s)"
  have set: "set (recent s) = set ?xs" using mset_eq_setD [OF mset_recent [of s]] by simp
  have ne: "?xs \<noteq> []" using assms(1) by (metis length_0_conv length_sort)
  have mono: "?xs ! i \<le> ?xs ! j" if "i \<le> j" "j < length (samples_ns s)" for i j
    using that by (intro sorted_nth_mono) simp_all
  have last: "last ?xs = ?xs ! (length (samples_ns s) - 1)" using ne by (simp add: last_conv_nth)
  have "x \<le> last ?xs" if "x \<in> set ?xs" for x
    using that unfolding in_set_conv_nth last by (auto intro!: mono)
  moreover have "last ?xs \<in> set ?xs" using ne by (rule last_in_set)
  ultimately have max: "Max (set ?xs) = last ?xs" by (intro Max_eqI) auto
  have mem: "?xs ! i \<in> set ?xs" if "i < length (samples_ns s)" for i
    using that by (intro nth_mem) simp
  note r = assms(2) [unfolded ranks_ok_def]
  have max_le: "?xs ! i \<le> last ?xs" if "i < length (samples_ns s)" for i
    unfolding last using that by (intro mono) simp_all
  show ?thesis
    using r unfolding set Let_def pct_def length_sort max [symmetric, THEN eq_reflection]
    by (auto intro!: mono mem max_le [unfolded max [symmetric]] simp del: set_sort)
qed

definition sample_stats :: LatencyStats where
  "sample_stats = fold record_sample [30, 10, 20] (LatencyStats_init ''x'')"

lemma sample_stats_samples: "samples_ns sample_stats = [30, 10, 20]"
  by (simp add: sample_stats_def record_sample_def LatencyStats_init_def kCapacity_def)

lemma sample_ranks: "ranks_ok real_ops 3"
  by (simp add: ranks_ok_def rank_def of_rat_divide floor_eq_iff)

theorem latency_percentiles_witness:
  "pct real_ops (sort (samples_ns sample_stats)) (1 / 2) \<le> pct real_ops (sort (samples_ns sample_stats)) (9 / 10) \<and>
   pct real_ops (sort (samples_ns sample_stats)) (99 / 100) \<le> 30"
  using latency_percentiles [of sample_stats real_ops] sample_ranks
  by (simp add: sample_stats_samples Let_def numeral_3_eq_3)

end
