(* ===== verification/Trading_Bot.thy ===== *)
theory Trading_Bot
  imports Http_Client Web_Socket Kalshi_Decoder Kalshi_Messages Strategy Trackers "HOL-Library.AList"
begin

text \<open>
  \<open>include/trading_bot.hpp\<close> and \<open>src/trading/trading_bot.cpp\<close>: the loop that reads market data from
  the WebSocket, keeps book, positions and orders, and sends what the strategy decides. The
  \<open>unordered_map\<close> of unconfirmed fills is summed over, so it is an association list with distinct
  keys. \<open>bot_stopped\<close> is the negation of \<open>g_running\<close>, as far as the program has set or seen it: the
  signal handler may clear the flag before any read. What is printed is not modelled. Where signed
  arithmetic on quantities overflows, a step has no result.
\<close>

section \<open>Definitions\<close>

definition kKalshiWsHost :: string where "kKalshiWsHost = ''external-api-ws.demo.kalshi.co''"
definition kKalshiHost :: string where "kKalshiHost = ''external-api.demo.kalshi.co''"
definition kOrdersPath :: string where "kOrdersPath = ''/trade-api/v2/portfolio/events/orders''"
definition kExchangeStatusPath :: string where "kExchangeStatusPath = ''/trade-api/v2/exchange/status''"

definition kMaxReconnectBackoff :: int where "kMaxReconnectBackoff = 60"
definition kStatusInterval :: int where "kStatusInterval = seconds 30"
definition kHttpKeepWarmAfter :: int where "kHttpKeepWarmAfter = seconds 20"

record 'd TradingBot =
  bot_ticker :: string
  bot_signer :: string
  bot_strategy :: "'d Strategy"
  bot_http :: HttpClient
  bot_orders :: OrderTracker
  bot_positions :: PositionTracker
  bot_unconfirmed :: "(string \<times> Quantity) list"
  bot_order_seq :: nat
  bot_book :: MarketState
  bot_book_sid :: "nat option"
  bot_book_seq :: nat
  bot_decode :: LatencyStats
  bot_book_and_strategy :: LatencyStats
  bot_tick_to_order :: LatencyStats
  bot_order_round_trip :: LatencyStats
  bot_stopped :: bool

definition TradingBot_init :: "string \<Rightarrow> string \<Rightarrow> StrategyConfig \<Rightarrow> 'd TradingBot" where
  "TradingBot_init ticker kid config =
     \<lparr>bot_ticker = ticker, bot_signer = kid, bot_strategy = Strategy_init config,
      bot_http = HttpClient_init kKalshiHost (Some kid), bot_orders = Map.empty, bot_positions = Map.empty,
      bot_unconfirmed = [], bot_order_seq = 0, bot_book = MarketState_init, bot_book_sid = None, bot_book_seq = 0,
      bot_decode = LatencyStats_init ''decode (frame->msg)'',
      bot_book_and_strategy = LatencyStats_init ''book + strategy'',
      bot_tick_to_order = LatencyStats_init ''tick-to-order-sent'',
      bot_order_round_trip = LatencyStats_init ''order round trip'', bot_stopped = False\<rparr>"

definition parse_contracts :: "string \<Rightarrow> Quantity option" where
  "parse_contracts s = parse_fixed 0 s"

definition is_snapshot :: "Message \<Rightarrow> bool" where
  "is_snapshot m = (case msg_payload m of MsgSnapshot _ \<Rightarrow> True | _ \<Rightarrow> False)"

definition is_book_message :: "Message \<Rightarrow> bool" where
  "is_book_message m = (case msg_payload m of MsgSnapshot _ \<Rightarrow> True | MsgDelta _ \<Rightarrow> True | _ \<Rightarrow> False)"

definition request_stop :: "'d TradingBot \<Rightarrow> 'd TradingBot" where
  "request_stop b = b\<lparr>bot_stopped := True\<rparr>"

text \<open>Reading \<open>g_running\<close>.\<close>

definition is_running :: "'d TradingBot \<Rightarrow> (bool \<times> 'd TradingBot) io" where
  "is_running b =
     (if bot_stopped b then io_return (False, b)
      else io_bind read_running (\<lambda>run. io_return (run, if run then b else request_stop b)))"

fun sum64 :: "int \<Rightarrow> int list \<Rightarrow> int option" where
  "sum64 acc [] = Some acc"
| "sum64 acc (x # xs) = (case add64 acc x of None \<Rightarrow> None | Some a \<Rightarrow> sum64 a xs)"

definition exposure :: "'d TradingBot \<Rightarrow> Quantity option" where
  "exposure b = sum64 (get_position (bot_positions b) (bot_ticker b)) (map snd (bot_unconfirmed b))"

definition add_unconfirmed :: "string \<Rightarrow> Quantity \<Rightarrow> (string \<times> Quantity) list \<Rightarrow> (string \<times> Quantity) list option" where
  "add_unconfirmed oid q m =
     map_option (\<lambda>v. AList.update oid v m) (add64 (case map_of m oid of None \<Rightarrow> 0 | Some v \<Rightarrow> v) q)"

text \<open>The part of \<open>submit\<close> that handles the response.\<close>

definition order_result :: "'d TradingBot \<Rightarrow> Signal \<Rightarrow> OrderRequest \<Rightarrow> string + JsonValue \<Rightarrow> 'd TradingBot option" where
  "order_result b signal req result =
     (case result of
        Inl _ \<Rightarrow> Some b
      | Inr json \<Rightarrow>
     (case parse_order_response json of
        Inl _ \<Rightarrow> Some b
      | Inr parsed \<Rightarrow>
     (case parse_contracts (resp_fill_count parsed) of
        None \<Rightarrow> Some b
      | Some filled \<Rightarrow>
          let b' = b\<lparr>bot_orders := add_order
                \<lparr>order_id = resp_order_id parsed, order_request = req,
                 order_status = (if filled > 0 then Filled else Cancelled),
                 fill_count = resp_fill_count parsed, remaining_count = resp_remaining_count parsed\<rparr> (bot_orders b)\<rparr> in
          if filled > 0
          then map_option (\<lambda>u. b'\<lparr>bot_unconfirmed := u\<rparr>)
                 (add_unconfirmed (resp_order_id parsed) (if sig_side signal = Bid then filled else - filled) (bot_unconfirmed b))
          else Some b')))"

definition submit :: "'d TradingBot \<Rightarrow> Signal \<Rightarrow> int \<Rightarrow> 'd TradingBot io" where
  "submit b signal tick_time =
     io_bind current_timestamp_ms (\<lambda>ts.
     let seq = (bot_order_seq b + 1) mod 2 ^ 64;
         client_id = ''bot-'' @ ts @ ''-'' @ show_nat seq;
         req = make_ioc_order (bot_ticker b) signal client_id in
     io_bind clock_now (\<lambda>sent_at.
     io_bind (request_json ''POST'' kOrdersPath (serialize_order_request req) (bot_http b)) (\<lambda>(result, http).
     io_bind clock_now (\<lambda>done_at.
     io_of (order_result
       (b\<lparr>bot_order_seq := seq, bot_http := http,
          bot_tick_to_order := record_sample (hc_last_send http - tick_time) (bot_tick_to_order b),
          bot_order_round_trip := record_sample (done_at - sent_at) (bot_order_round_trip b)\<rparr>)
       signal req result)))))"

definition confirm :: "string \<Rightarrow> Quantity \<Rightarrow> (string \<times> Quantity) list \<Rightarrow> (string \<times> Quantity) list option" where
  "confirm oid q m =
     (case map_of m oid of
        None \<Rightarrow> Some m
      | Some before \<Rightarrow>
          map_option
            (\<lambda>after. if after = 0 \<or> (before > 0) \<noteq> (after > 0) then AList.delete oid m else AList.update oid after m)
            (sub64 before q))"

definition signed_qty :: "FillAction \<Rightarrow> Quantity \<Rightarrow> Quantity" where
  "signed_qty action qty = (if action = Buy then qty else - qty)"

definition on_fill :: "'d TradingBot \<Rightarrow> Fill \<Rightarrow> 'd TradingBot option" where
  "on_fill b fill =
     (case parse_contracts (count_fp fill) of
        None \<Rightarrow> Some b
      | Some qty \<Rightarrow>
     (case update_positions (fill_market_ticker fill) (signed_qty (fill_action fill) qty) (bot_positions b) of
        None \<Rightarrow> None
      | Some positions \<Rightarrow>
          map_option
            (\<lambda>u. b\<lparr>bot_orders := update_status (fill_order_id fill) Filled (bot_orders b),
                   bot_positions := positions, bot_unconfirmed := u\<rparr>)
            (confirm (fill_order_id fill) (signed_qty (fill_action fill) qty) (bot_unconfirmed b))))"

definition on_book_error :: "'d TradingBot \<Rightarrow> BookError \<Rightarrow> 'd TradingBot" where
  "on_book_error b e = (if book_error_kind e = OutOfSync then b else request_stop b)"

definition keep_http_warm :: "'d TradingBot \<Rightarrow> 'd TradingBot io" where
  "keep_http_warm b =
     io_bind (if hc_tls (bot_http b)
              then io_bind clock_now (\<lambda>now. io_return (now - hc_last_used (bot_http b) < kHttpKeepWarmAfter))
              else io_return False) (\<lambda>warm.
     if warm then io_return b
     else io_bind (request ''GET'' kExchangeStatusPath [] (bot_http b)) (\<lambda>(_, http). io_return (b\<lparr>bot_http := http\<rparr>)))"

definition subscribe_msg :: "string \<Rightarrow> string" where
  "subscribe_msg ticker =
     [CHR 0x7B] @ quoted ''id'' @ '':1,'' @ quoted ''cmd'' @ '':'' @ quoted ''subscribe'' @ '','' @
     quoted ''params'' @ '':'' @ [CHR 0x7B] @ quoted ''channels'' @ '':['' @ quoted ''orderbook_delta'' @ '','' @
     quoted ''fill'' @ ''],'' @ quoted ''market_ticker'' @ '':'' @ quoted ticker @ [CHR 0x7D, CHR 0x7D]"

text \<open>The sequence check of the session loop; no result means a gap.\<close>

definition check_sequence :: "'d TradingBot \<Rightarrow> Message \<Rightarrow> 'd TradingBot option" where
  "check_sequence b m =
     (if is_book_message m \<and> msg_seq m \<noteq> 0 then
        (if \<not> is_snapshot m \<and> (bot_book_sid b \<noteq> Some (msg_sid m) \<or> msg_seq m \<noteq> (bot_book_seq b + 1) mod 2 ^ 32)
         then None
         else Some (b\<lparr>bot_book_sid := Some (msg_sid m), bot_book_seq := msg_seq m\<rparr>))
      else if bot_book_sid b = Some (msg_sid m) \<and> msg_seq m \<noteq> 0
      then Some (b\<lparr>bot_book_seq := msg_seq m\<rparr>)
      else Some b)"

text \<open>Applying a message: what it did to the book, and the bot after it.\<close>

datatype effect = BookFailed | SnapshotApplied | DeltaApplied | Unchanged

definition apply_message :: "'d TradingBot \<Rightarrow> Message \<Rightarrow> (effect \<times> 'd TradingBot) option" where
  "apply_message b m =
     (case msg_payload m of
        MsgSnapshot snapshot \<Rightarrow>
          (case apply_snapshot (bot_book b) snapshot of
             (Inl e, book) \<Rightarrow> Some (BookFailed, on_book_error (b\<lparr>bot_book := book\<rparr>) e)
           | (Inr _, book) \<Rightarrow> Some (SnapshotApplied, b\<lparr>bot_book := book\<rparr>))
      | MsgDelta delta \<Rightarrow>
          (case apply_delta (bot_book b) delta of
             None \<Rightarrow> None
           | Some (Inl e, book) \<Rightarrow> Some (BookFailed, on_book_error (b\<lparr>bot_book := book\<rparr>) e)
           | Some (Inr _, book) \<Rightarrow> Some (DeltaApplied, b\<lparr>bot_book := book\<rparr>))
      | MsgFill fill \<Rightarrow> map_option (Pair Unchanged) (on_fill b fill)
      | MsgNone \<Rightarrow> Some (Unchanged, b))"

definition trade :: "'d double_ops \<Rightarrow> 'd TradingBot \<Rightarrow> int \<Rightarrow> int \<Rightarrow> 'd TradingBot io" where
  "trade D b t_rx t_decoded =
     io_bind (io_of (exposure b)) (\<lambda>e.
     io_bind clock_now (\<lambda>now.
     io_bind (io_of (on_book_update D (bot_strategy b) (bot_book b) e now)) (\<lambda>(signal, strategy).
     io_bind clock_now (\<lambda>t.
     let b' = b\<lparr>bot_strategy := strategy,
                bot_book_and_strategy := record_sample (t - t_decoded) (bot_book_and_strategy b)\<rparr> in
     case signal of None \<Rightarrow> io_return b' | Some sg \<Rightarrow> submit b' sg t_rx))))"

text \<open>How an iteration of the session loop goes on: \<open>continue\<close>, with the housekeeping at its end, or \<open>return\<close>.\<close>

datatype flow = Continue | Housekeeping | Return

definition on_text :: "'d double_ops \<Rightarrow> 'd TradingBot \<Rightarrow> bool \<Rightarrow> int \<Rightarrow> bytes \<Rightarrow> (flow \<times> bool \<times> 'd TradingBot) io" where
  "on_text D b received_data t_rx bs =
     (case decode_kalshi_message (text_of bs) of
        Inl _ \<Rightarrow> io_return (Continue, received_data, b)
      | Inr m \<Rightarrow>
          io_bind clock_now (\<lambda>t_decoded.
          let b1 = b\<lparr>bot_decode := record_sample (t_decoded - t_rx) (bot_decode b)\<rparr> in
          case check_sequence b1 m of
            None \<Rightarrow> io_return (Return, received_data, b1)
          | Some b2 \<Rightarrow>
              io_bind (io_of (apply_message b2 m)) (\<lambda>(eff, b3).
              case eff of
                BookFailed \<Rightarrow> io_return (Return, received_data, b3)
              | Unchanged \<Rightarrow> io_return (Housekeeping, received_data, b3)
              | SnapshotApplied \<Rightarrow> io_bind (trade D b3 t_rx t_decoded) (\<lambda>b4. io_return (Housekeeping, True, b4))
              | DeltaApplied \<Rightarrow> io_bind (trade D b3 t_rx t_decoded) (\<lambda>b4. io_return (Housekeeping, received_data, b4)))))"

definition handle_frame ::
  "'d double_ops \<Rightarrow> 'd TradingBot \<Rightarrow> bool \<Rightarrow> int \<Rightarrow> string + WebSocketFrame \<Rightarrow> (flow \<times> bool \<times> 'd TradingBot) io" where
  "handle_frame D b received_data t_rx frame =
     (case frame of
        Inl _ \<Rightarrow> io_bind (is_running b) (\<lambda>(_, b'). io_return (Return, received_data, b'))
      | Inr f \<Rightarrow>
          if op_code f = Ping then io_bind (send_pong f) (\<lambda>_. io_return (Housekeeping, received_data, b))
          else if op_code f = Close then io_return (Return, received_data, b)
          else if op_code f = Text then on_text D b received_data t_rx (payload f)
          else io_return (Housekeeping, received_data, b))"

definition on_frame ::
  "'d double_ops \<Rightarrow> WebSocket \<Rightarrow> 'd TradingBot \<Rightarrow> bool \<Rightarrow> (WebSocket \<times> flow \<times> bool \<times> 'd TradingBot) io" where
  "on_frame D ws b received_data =
     io_bind (receive_frame ws) (\<lambda>(frame, ws').
     io_bind clock_now (\<lambda>t_rx.
     io_bind (handle_frame D b received_data t_rx frame) (\<lambda>r. io_return (ws', r))))"

text \<open>Of the status line only the exposure is computed here, since its sum may overflow.\<close>

definition print_status :: "'d TradingBot \<Rightarrow> unit io" where
  "print_status b = io_bind (io_of (exposure b)) (\<lambda>_. io_return ())"

definition housekeeping :: "'d TradingBot \<Rightarrow> int \<Rightarrow> ('d TradingBot \<times> int) io" where
  "housekeeping b last_status =
     io_bind (keep_http_warm b) (\<lambda>b'.
     io_bind clock_now (\<lambda>now.
     if now - last_status \<ge> kStatusInterval
     then io_bind (print_status b') (\<lambda>_. io_return (b', now))
     else io_return (b', last_status)))"

section \<open>Progress\<close>

lemma shrinks_is_running [shrink]: "shrinks (is_running b)"
  unfolding is_running_def by (intro shrink)

lemma shrinks_submit [shrink]: "shrinks (submit b signal t)"
  unfolding submit_def current_timestamp_ms_def Let_def by (intro shrink)

lemma shrinks_keep_http_warm [shrink]: "shrinks (keep_http_warm b)"
  unfolding keep_http_warm_def by (intro shrink)

lemma shrinks_trade [shrink]: "shrinks (trade D b t t')"
  unfolding trade_def Let_def by (intro shrink)

lemma shrinks_case_effect [shrink]:
  "shrinks m1 \<Longrightarrow> shrinks m2 \<Longrightarrow> shrinks m3 \<Longrightarrow> shrinks m4 \<Longrightarrow>
     shrinks (case eff of BookFailed \<Rightarrow> m1 | SnapshotApplied \<Rightarrow> m2 | DeltaApplied \<Rightarrow> m3 | Unchanged \<Rightarrow> m4)"
  by (cases eff) simp_all

lemma shrinks_on_text [shrink]: "shrinks (on_text D b received_data t bs)"
  unfolding on_text_def Let_def by (intro shrink)

lemma shrinks_on_frame [shrink]: "shrinks (on_frame D ws b received_data)"
  unfolding on_frame_def handle_frame_def by (intro shrink)

lemma shrinks_housekeeping [shrink]: "shrinks (housekeeping b last_status)"
  unfolding housekeeping_def print_status_def by (intro shrink)

lemma running_progress:
  "is_running b w = Some ((True, b'), w') \<Longrightarrow> length (answers w') < length (answers w)"
  by (auto simp: is_running_def io_bind_Some dest: running_less split: if_splits)

text \<open>The cases of a text frame.\<close>

lemma on_textE:
  assumes "on_text D b received t_rx bs w = Some ((fl, received', b'), w')"
  obtains (undecoded) e where "decode_kalshi_message (text_of bs) = Inl e" "fl = Continue" "b' = b" "received' = received" "w' = w"
  | (gap) m st where "decode_kalshi_message (text_of bs) = Inr m" "check_sequence (b\<lparr>bot_decode := st\<rparr>) m = None"
      "fl = Return" "b' = b\<lparr>bot_decode := st\<rparr>" "received' = received"
  | (failed) m st b2 where "decode_kalshi_message (text_of bs) = Inr m" "check_sequence (b\<lparr>bot_decode := st\<rparr>) m = Some b2"
      "apply_message b2 m = Some (BookFailed, b')" "fl = Return" "received' = received"
  | (unchanged) m st b2 where "decode_kalshi_message (text_of bs) = Inr m" "check_sequence (b\<lparr>bot_decode := st\<rparr>) m = Some b2"
      "apply_message b2 m = Some (Unchanged, b')" "fl = Housekeeping" "received' = received"
  | (traded) m st b2 eff b3 t w1 w2 where "decode_kalshi_message (text_of bs) = Inr m" "check_sequence (b\<lparr>bot_decode := st\<rparr>) m = Some b2"
      "apply_message b2 m = Some (eff, b3)" "eff = SnapshotApplied \<or> eff = DeltaApplied" "trade D b3 t_rx t w1 = Some (b', w2)"
      "fl = Housekeeping" "received' = (received \<or> eff = SnapshotApplied)"
proof (cases "decode_kalshi_message (text_of bs)")
  case (Inl e)
  with assms undecoded show ?thesis by (auto simp: on_text_def)
next
  case (Inr m)
  with assms obtain t w1 where
    run: "(case check_sequence (b\<lparr>bot_decode := record_sample (t - t_rx) (bot_decode b)\<rparr>) m of
        None \<Rightarrow> io_return (Return, received, b\<lparr>bot_decode := record_sample (t - t_rx) (bot_decode b)\<rparr>)
      | Some b2 \<Rightarrow> io_bind (io_of (apply_message b2 m)) (\<lambda>(eff, b3). case eff of
            BookFailed \<Rightarrow> io_return (Return, received, b3)
          | Unchanged \<Rightarrow> io_return (Housekeeping, received, b3)
          | SnapshotApplied \<Rightarrow> io_bind (trade D b3 t_rx t) (\<lambda>b4. io_return (Housekeeping, True, b4))
          | DeltaApplied \<Rightarrow> io_bind (trade D b3 t_rx t) (\<lambda>b4. io_return (Housekeeping, received, b4)))) w1
        = Some ((fl, received', b'), w')"
    unfolding on_text_def Let_def by (auto simp: io_bind_Some)
  show ?thesis
  proof (cases "check_sequence (b\<lparr>bot_decode := record_sample (t - t_rx) (bot_decode b)\<rparr>) m")
    case None
    with run gap [OF Inr None] show ?thesis by auto
  next
    case (Some b2)
    with run obtain eff b3 where a: "apply_message b2 m = Some (eff, b3)"
      by (cases "apply_message b2 m") (auto simp: io_bind_def io_of_def)
    with run Some failed [OF Inr Some] unchanged [OF Inr Some] traded [OF Inr Some a] show ?thesis
      by (cases eff) (auto simp: io_bind_Some io_of_def)
  qed
qed

section \<open>The loops\<close>

function session_loop ::
  "'d double_ops \<Rightarrow> WebSocket \<Rightarrow> 'd TradingBot \<Rightarrow> bool \<Rightarrow> int \<Rightarrow> (bool \<times> 'd TradingBot) io" where
  "session_loop D ws b received_data last_status w =
     (case is_running b w of
        None \<Rightarrow> None
      | Some ((False, b1), w1) \<Rightarrow> Some ((received_data, b1), w1)
      | Some ((True, b1), w1) \<Rightarrow>
         (case on_frame D ws b1 received_data w1 of
            None \<Rightarrow> None
          | Some ((ws', Return, received', b2), w2) \<Rightarrow> Some ((received', b2), w2)
          | Some ((ws', Continue, received', b2), w2) \<Rightarrow> session_loop D ws' b2 received' last_status w2
          | Some ((ws', Housekeeping, received', b2), w2) \<Rightarrow>
             (case housekeeping b2 last_status w2 of
                None \<Rightarrow> None
              | Some ((b3, last_status'), w3) \<Rightarrow> session_loop D ws' b3 received' last_status' w3)))"
  by pat_completeness auto
termination
  by (relation "measure (\<lambda>(D, ws, b, received_data, last_status, w). length (answers w))")
    (auto dest!: running_progress shrinksD [OF shrinks_on_frame] shrinksD [OF shrinks_housekeeping])

declare session_loop.simps [simp del]

definition run_session :: "'d double_ops \<Rightarrow> (bytes \<Rightarrow> string) \<Rightarrow> 'd TradingBot \<Rightarrow> (bool \<times> 'd TradingBot) io" where
  "run_session D encode_block b =
     io_bind (ws_connect encode_block kKalshiWsHost ''443'' (bot_signer b)) (\<lambda>connected.
     case connected of
       Inl _ \<Rightarrow> io_return (False, b)
     | Inr _ \<Rightarrow>
         io_bind (send_text (subscribe_msg (bot_ticker b))) (\<lambda>subscribed.
         case subscribed of
           Inl _ \<Rightarrow> io_return (False, b)
         | Inr _ \<Rightarrow>
             io_bind clock_now (\<lambda>last_status.
             session_loop D WebSocket_init (b\<lparr>bot_book := MarketState_init, bot_book_sid := None\<rparr>) False last_status)))"

fun wait_backoff :: "nat \<Rightarrow> 'd TradingBot \<Rightarrow> 'd TradingBot io" where
  "wait_backoff 0 b = io_return b"
| "wait_backoff (Suc n) b =
     io_bind (is_running b) (\<lambda>(run, b').
     if run then io_bind (sleep_for 1) (\<lambda>_. wait_backoff n b') else io_return b')"

definition next_backoff :: "int \<Rightarrow> int" where
  "next_backoff backoff = min (backoff * 2) kMaxReconnectBackoff"

text \<open>One round of the session loop, as a rule for inductions over it.\<close>

lemma session_loopE:
  assumes "session_loop D ws b received_data last_status w = Some ((r, b'), w')"
  obtains (stopped) "is_running b w = Some ((False, b'), w')" "r = received_data"
  | (return) b1 w1 ws' where "is_running b w = Some ((True, b1), w1)" "on_frame D ws b1 received_data w1 = Some ((ws', Return, r, b'), w')"
  | (skip) b1 w1 ws' received' b2 w2 where "is_running b w = Some ((True, b1), w1)"
      "on_frame D ws b1 received_data w1 = Some ((ws', Continue, received', b2), w2)"
      "session_loop D ws' b2 received' last_status w2 = Some ((r, b'), w')"
  | (round) b1 w1 ws' received' b2 w2 b3 last_status' w3 where "is_running b w = Some ((True, b1), w1)"
      "on_frame D ws b1 received_data w1 = Some ((ws', Housekeeping, received', b2), w2)"
      "housekeeping b2 last_status w2 = Some ((b3, last_status'), w3)"
      "session_loop D ws' b3 received' last_status' w3 = Some ((r, b'), w')"
  using assms
  by (subst (asm) session_loop.simps)
    (auto split: option.split_asm prod.split_asm bool.split_asm flow.split_asm)

lemma session_loop_consumes:
  "session_loop D ws b received_data last_status w = Some ((r, b'), w') \<Longrightarrow> consumes w w'"
proof (induction "length (answers w)" arbitrary: ws b received_data last_status w rule: less_induct)
  case less
  from less.prems show ?case
  proof (cases rule: session_loopE)
    case stopped
    from shrinks_consumes [OF shrinks_is_running stopped(1)] show ?thesis .
  next
    case return
    from consumes_trans [OF shrinks_consumes [OF shrinks_is_running return(1)] shrinks_consumes [OF shrinks_on_frame return(2)]]
    show ?thesis .
  next
    case (skip b1 w1 ws' received' b2 w2)
    from running_progress [OF skip(1)] shrinksD [OF shrinks_on_frame skip(2)]
    have "length (answers w2) < length (answers w)" by simp
    from less.hyps [OF this skip(3)] shrinks_consumes [OF shrinks_is_running skip(1)] shrinks_consumes [OF shrinks_on_frame skip(2)]
    show ?thesis by (blast intro: consumes_trans)
  next
    case (round b1 w1 ws' received' b2 w2 b3 last_status' w3)
    from running_progress [OF round(1)] shrinksD [OF shrinks_on_frame round(2)] shrinksD [OF shrinks_housekeeping round(3)]
    have "length (answers w3) < length (answers w)" by simp
    from less.hyps [OF this round(4)] shrinks_consumes [OF shrinks_is_running round(1)] shrinks_consumes [OF shrinks_on_frame round(2)]
      shrinks_consumes [OF shrinks_housekeeping round(3)]
    show ?thesis by (blast intro: consumes_trans)
  qed
qed

lemma shrinks_run_session [shrink]: "shrinks (run_session D encode_block b)"
proof -
  have [shrink]: "shrinks (session_loop D ws b received_data last_status)" for ws b received_data last_status
    using session_loop_consumes by (fastforce simp: shrinks_def)
  show ?thesis unfolding run_session_def by (intro shrink)
qed

lemma shrinks_wait_backoff [shrink]: "shrinks (wait_backoff n b)"
  by (induction n arbitrary: b) (auto intro!: shrink)

function run_loop :: "'d double_ops \<Rightarrow> (bytes \<Rightarrow> string) \<Rightarrow> int \<Rightarrow> 'd TradingBot \<Rightarrow> 'd TradingBot io" where
  "run_loop D encode_block backoff b w =
     (case is_running b w of
        None \<Rightarrow> None
      | Some ((False, b1), w1) \<Rightarrow> Some (b1, w1)
      | Some ((True, b1), w1) \<Rightarrow>
         (case run_session D encode_block b1 w1 of
            None \<Rightarrow> None
          | Some ((received, b2), w2) \<Rightarrow>
             (let backoff' = (if received then 1 else backoff) in
              case is_running b2 w2 of
                None \<Rightarrow> None
              | Some ((False, b3), w3) \<Rightarrow> Some (b3, w3)
              | Some ((True, b3), w3) \<Rightarrow>
                 (case wait_backoff (nat backoff') b3 w3 of
                    None \<Rightarrow> None
                  | Some (b4, w4) \<Rightarrow> run_loop D encode_block (next_backoff backoff') b4 w4))))"
  by pat_completeness auto

termination
  by (relation "measure (\<lambda>(D, encode_block, backoff, b, w). length (answers w))")
    (auto dest!: running_progress shrinksD [OF shrinks_run_session] shrinksD [OF shrinks_wait_backoff])

declare run_loop.simps [simp del]

definition run :: "'d double_ops \<Rightarrow> (bytes \<Rightarrow> string) \<Rightarrow> 'd TradingBot \<Rightarrow> 'd TradingBot io" where
  "run D encode_block b =
     io_bind (connect (bot_http b)) (\<lambda>(_, http).
     run_loop D encode_block 1 (b\<lparr>bot_http := http\<rparr>))"

lemma run_sessionE:
  assumes "run_session D encode_block b w = Some ((r, b'), w')"
  obtains (failed) "\<not> r" "b' = b"
  | (looped) t w1 where "session_loop D WebSocket_init (b\<lparr>bot_book := MarketState_init, bot_book_sid := None\<rparr>) False t w1 = Some ((r, b'), w')"
  using assms unfolding run_session_def by (auto simp: bind_case_sum_Some io_bind_Some [of clock_now])

lemma run_loopE:
  assumes "run_loop D encode_block backoff b w = Some (b', w')"
  obtains (stopped) "is_running b w = Some ((False, b'), w')"
  | (ended) b1 w1 r b2 w2 where "is_running b w = Some ((True, b1), w1)" "run_session D encode_block b1 w1 = Some ((r, b2), w2)"
      "is_running b2 w2 = Some ((False, b'), w')"
  | (again) b1 w1 r b2 w2 b3 w3 b4 w4 where "is_running b w = Some ((True, b1), w1)"
      "run_session D encode_block b1 w1 = Some ((r, b2), w2)" "is_running b2 w2 = Some ((True, b3), w3)"
      "wait_backoff (nat (if r then 1 else backoff)) b3 w3 = Some (b4, w4)"
      "run_loop D encode_block (next_backoff (if r then 1 else backoff)) b4 w4 = Some (b', w')"
  using assms
  by (subst (asm) run_loop.simps) (auto simp: Let_def split: option.split_asm prod.split_asm bool.split_asm)

lemma run_loop_consumes:
  "run_loop D encode_block backoff b w = Some (b', w') \<Longrightarrow> consumes w w'"
proof (induction "length (answers w)" arbitrary: backoff b w rule: less_induct)
  case less
  from less.prems show ?case
  proof (cases rule: run_loopE)
    case stopped
    then show ?thesis by (rule shrinks_consumes [OF shrinks_is_running])
  next
    case (ended b1 w1 r b2 w2)
    from shrinks_consumes [OF shrinks_is_running ended(1)] shrinks_consumes [OF shrinks_run_session ended(2)]
      shrinks_consumes [OF shrinks_is_running ended(3)] show ?thesis by (blast intro: consumes_trans)
  next
    case (again b1 w1 r b2 w2 b3 w3 b4 w4)
    from running_progress [OF again(1)] shrinksD [OF shrinks_run_session again(2)] running_progress [OF again(3)]
      shrinksD [OF shrinks_wait_backoff again(4)]
    have "length (answers w4) < length (answers w)" by simp
    from less.hyps [OF this again(5)] shrinks_consumes [OF shrinks_is_running again(1)] shrinks_consumes [OF shrinks_run_session again(2)]
      shrinks_consumes [OF shrinks_is_running again(3)] shrinks_consumes [OF shrinks_wait_backoff again(4)]
    show ?thesis by (blast intro: consumes_trans)
  qed
qed

lemma shrinks_run [shrink]: "shrinks (run D encode_block b)"
proof -
  have [shrink]: "shrinks (run_loop D encode_block backoff b)" for backoff b
    using run_loop_consumes by (auto simp: shrinks_def)
  show ?thesis unfolding run_def by (intro shrink)
qed

section \<open>Relations kept by the loops\<close>

text \<open>
  A preorder between the bot before and after each operation of a round holds between the bot before
  and after every handler, session and run.
\<close>

locale bot_relation =
  fixes D :: "'d double_ops" and R :: "'d TradingBot \<Rightarrow> 'd TradingBot \<Rightarrow> bool"
  assumes refl: "R b b"
    and trans: "R b c \<Longrightarrow> R c d \<Longrightarrow> R b d"
    and decoding: "R b (b\<lparr>bot_decode := st\<rparr>)"
    and sequencing: "check_sequence b m = Some b' \<Longrightarrow> R b b'"
    and applying: "apply_message b m = Some (eff, b') \<Longrightarrow> R b b'"
    and trading: "trade D b t_rx t_decoded w = Some (b', w') \<Longrightarrow> R b b'"
    and running: "is_running b w = Some ((go, b'), w') \<Longrightarrow> R b b'"
    and keeping: "housekeeping b t w = Some ((b', t'), w') \<Longrightarrow> R b b'"
    and starting: "R b (b\<lparr>bot_book := MarketState_init, bot_book_sid := None\<rparr>)"
    and connecting: "R b (b\<lparr>bot_http := http\<rparr>)"
begin

lemma on_text_kept:
  assumes "on_text D b received t_rx bs w = Some ((fl, received', b'), w')"
  shows "R b b'"
  using assms
proof (cases rule: on_textE)
  case undecoded
  then show ?thesis by (simp add: refl)
next
  case gap
  then show ?thesis by (simp add: decoding)
next
  case failed
  show ?thesis by (rule trans [OF trans [OF decoding sequencing [OF failed(2)]] applying [OF failed(3)]])
next
  case unchanged
  show ?thesis by (rule trans [OF trans [OF decoding sequencing [OF unchanged(2)]] applying [OF unchanged(3)]])
next
  case traded
  show ?thesis
    by (rule trans [OF trans [OF trans [OF decoding sequencing [OF traded(2)]] applying [OF traded(3)]] trading [OF traded(5)]])
qed

lemma handle_frame_kept: "handle_frame D b received t_rx frame w = Some ((fl, received', b'), w') \<Longrightarrow> R b b'"
  by (cases frame) (auto simp: handle_frame_def io_bind_Some split: if_splits intro: refl running on_text_kept)

lemma on_frame_kept: "on_frame D ws b received w = Some ((ws', fl, received', b'), w') \<Longrightarrow> R b b'"
  by (auto simp: on_frame_def io_bind_Some intro: handle_frame_kept)

lemma session_loop_kept:
  assumes "session_loop D ws b received_data last_status w = Some ((r, b'), w')"
  shows "R b b'"
  using assms
proof (induction "length (answers w)" arbitrary: ws b received_data last_status w rule: less_induct)
  case less
  from less.prems show ?case
  proof (cases rule: session_loopE)
    case stopped
    show ?thesis by (rule running [OF stopped(1)])
  next
    case return
    show ?thesis by (rule trans [OF running [OF return(1)] on_frame_kept [OF return(2)]])
  next
    case (skip b1 w1 ws' received' b2 w2)
    from running_progress [OF skip(1)] shrinksD [OF shrinks_on_frame skip(2)]
    have "length (answers w2) < length (answers w)" by simp
    from less.hyps [OF this skip(3)] show ?thesis
      by (rule trans [OF trans [OF running [OF skip(1)] on_frame_kept [OF skip(2)]]])
  next
    case (round b1 w1 ws' received' b2 w2 b3 last_status' w3)
    from running_progress [OF round(1)] shrinksD [OF shrinks_on_frame round(2)] shrinksD [OF shrinks_housekeeping round(3)]
    have "length (answers w3) < length (answers w)" by simp
    from less.hyps [OF this round(4)] show ?thesis
      by (rule trans [OF trans [OF trans [OF running [OF round(1)] on_frame_kept [OF round(2)]] keeping [OF round(3)]]])
  qed
qed

lemma run_session_kept: "run_session D encode_block b w = Some ((r, b'), w') \<Longrightarrow> R b b'"
  by (erule run_sessionE) (blast intro: refl trans starting session_loop_kept)+

lemma wait_backoff_kept: "wait_backoff n b w = Some (b', w') \<Longrightarrow> R b b'"
proof (induction n arbitrary: b w)
  case 0
  then show ?case by (simp add: refl)
next
  case (Suc n)
  from Suc.prems obtain go b1 w1 where r: "is_running b w = Some ((go, b1), w1)"
    and rest: "b' = b1 \<or> (\<exists>w2. wait_backoff n b1 w2 = Some (b', w'))"
    by (auto simp: io_bind_Some split: if_splits)
  from rest Suc.IH running [OF r] trans show ?case by blast
qed

lemma run_loop_kept:
  assumes "run_loop D encode_block backoff b w = Some (b', w')"
  shows "R b b'"
  using assms
proof (induction "length (answers w)" arbitrary: backoff b w rule: less_induct)
  case less
  from less.prems show ?case
  proof (cases rule: run_loopE)
    case stopped
    then show ?thesis by (rule running)
  next
    case (ended b1 w1 r b2 w2)
    show ?thesis by (rule trans [OF trans [OF running [OF ended(1)] run_session_kept [OF ended(2)]] running [OF ended(3)]])
  next
    case (again b1 w1 r b2 w2 b3 w3 b4 w4)
    from running_progress [OF again(1)] shrinksD [OF shrinks_run_session again(2)] running_progress [OF again(3)]
      shrinksD [OF shrinks_wait_backoff again(4)]
    have "length (answers w4) < length (answers w)" by simp
    from less.hyps [OF this again(5)] show ?thesis
      by (rule trans [OF trans [OF trans [OF running [OF again(1)] run_session_kept [OF again(2)]]
            trans [OF running [OF again(3)] wait_backoff_kept [OF again(4)]]]])
  qed
qed

lemma run_kept: "run D encode_block b w = Some (b', w') \<Longrightarrow> R b b'"
  unfolding run_def by (auto simp: io_bind_Some split: prod.splits intro: trans [OF connecting run_loop_kept])

end

end
