(* ===== verification/Bot_Ledger.thy ===== *)
theory Bot_Ledger
  imports Trading_Bot
begin

text \<open>
  What the trading loop does to positions and unconfirmed fills. Their sum for the bot's market is
  the exposure the strategy is given. The steps of the loop are abstracted to a transition
  system with three kinds of events: an order placed on a signal of the strategy, a fill seen on the
  WebSocket, and everything else, which leaves the ledger alone. The loops of \<open>Trading_Bot\<close> refine
  it, and the position limit is an invariant of it.
\<close>

section \<open>The ledger\<close>

definition sum_of :: "(string \<times> Quantity) list \<Rightarrow> Quantity" where
  "sum_of m = sum_list (map snd m)"

definition pending :: "(string \<times> Quantity) list \<Rightarrow> string \<Rightarrow> Quantity" where
  "pending m oid = (case map_of m oid of None \<Rightarrow> 0 | Some v \<Rightarrow> v)"

definition net :: "'d TradingBot \<Rightarrow> Quantity" where
  "net b = get_position (bot_positions b) (bot_ticker b) + sum_of (bot_unconfirmed b)"

definition ledger_inv :: "'d TradingBot \<Rightarrow> bool" where
  "ledger_inv b \<longleftrightarrow> distinct (map fst (bot_unconfirmed b))"

lemma sum64_sum: "sum64 acc xs = Some s \<Longrightarrow> s = acc + sum_list xs"
  by (induction acc xs rule: sum64.induct) (auto simp: add64_def split: option.splits if_splits)

lemma exposure_net: "exposure b = Some e \<Longrightarrow> e = net b"
  by (auto simp: exposure_def net_def sum_of_def dest: sum64_sum)

lemma total_update: "distinct (map fst m) \<Longrightarrow> sum_of (AList.update oid v m) = sum_of m - pending m oid + v"
proof (induction m)
  case Nil
  then show ?case by (simp add: sum_of_def pending_def)
next
  case (Cons p m)
  then show ?case by (cases p) (auto simp: sum_of_def pending_def)
qed

lemma total_absent: "oid \<notin> fst ` set m \<Longrightarrow> sum_of (AList.delete oid m) = sum_of m"
  by (simp add: delete_id)

lemma total_delete: "distinct (map fst m) \<Longrightarrow> sum_of (AList.delete oid m) = sum_of m - pending m oid"
proof (induction m)
  case Nil
  then show ?case by (simp add: sum_of_def pending_def)
next
  case (Cons p m)
  then show ?case by (cases p) (auto simp: sum_of_def pending_def total_absent [unfolded sum_of_def])
qed

lemma add_unconfirmed_total:
  assumes "distinct (map fst m)" and "add_unconfirmed oid q m = Some m'"
  shows "sum_of m' = sum_of m + q" "distinct (map fst m')"
  using assms total_update [OF assms(1)]
  by (auto simp: add_unconfirmed_def add64_def pending_def distinct_update split: if_splits)

definition overshoots :: "Quantity \<Rightarrow> Quantity \<Rightarrow> bool" where
  "overshoots before q \<longleftrightarrow> before - q = 0 \<or> (before > 0) \<noteq> (before - q > 0)"

lemma confirm_total:
  assumes "distinct (map fst m)" and "confirm oid q m = Some m'"
  shows "sum_of m' = (case map_of m oid of None \<Rightarrow> sum_of m | Some u \<Rightarrow> if overshoots u q then sum_of m - u else sum_of m - q)"
    and "distinct (map fst m')"
proof (atomize (full), cases "map_of m oid")
  case None
  with assms show "sum_of m' = (case map_of m oid of None \<Rightarrow> sum_of m | Some u \<Rightarrow> if overshoots u q then sum_of m - u else sum_of m - q) \<and>
      distinct (map fst m')" by (simp add: confirm_def)
next
  case (Some u)
  with assms have "m' = (if overshoots u q then AList.delete oid m else AList.update oid (u - q) m)"
    by (auto simp: confirm_def sub64_def overshoots_def split: if_splits)
  with Some assms(1) show "sum_of m' = (case map_of m oid of None \<Rightarrow> sum_of m | Some u \<Rightarrow> if overshoots u q then sum_of m - u else sum_of m - q) \<and>
      distinct (map fst m')"
    by (simp add: total_update total_delete pending_def distinct_update distinct_delete)
qed

lemma order_result_ledger:
  assumes "order_result b signal req result = Some b'" and "ledger_inv b"
  shows "ledger_inv b'" "bot_ticker b' = bot_ticker b" "bot_positions b' = bot_positions b" "bot_strategy b' = bot_strategy b"
    and "net b' = net b \<or> (\<exists>json parsed filled. result = Inr json \<and> parse_order_response json = Inr parsed \<and>
      parse_contracts (resp_fill_count parsed) = Some filled \<and> 0 < filled \<and>
      net b' = net b + (if sig_side signal = Bid then filled else - filled))"
  using assms add_unconfirmed_total [of "bot_unconfirmed b"]
  by (auto simp: order_result_def ledger_inv_def net_def Let_def split: sum.splits option.splits if_splits)

lemma on_fill_ledger:
  assumes "on_fill b fill = Some b'" and "ledger_inv b"
  shows "ledger_inv b'" "bot_ticker b' = bot_ticker b" "bot_strategy b' = bot_strategy b"
    and "case parse_contracts (count_fp fill) of
        None \<Rightarrow> net b' = net b
      | Some qty \<Rightarrow>
         (let q = signed_qty (fill_action fill) qty;
              moved = (if fill_market_ticker fill = bot_ticker b then q else 0) in
          net b' = net b + moved -
            (case map_of (bot_unconfirmed b) (fill_order_id fill) of
               None \<Rightarrow> 0 | Some u \<Rightarrow> if overshoots u q then u else q))"
proof -
  show "ledger_inv b'" "bot_ticker b' = bot_ticker b" "bot_strategy b' = bot_strategy b"
    using assms confirm_total(2)
    by (auto simp: on_fill_def ledger_inv_def split: option.splits)
  show "case parse_contracts (count_fp fill) of
        None \<Rightarrow> net b' = net b
      | Some qty \<Rightarrow>
         (let q = signed_qty (fill_action fill) qty;
              moved = (if fill_market_ticker fill = bot_ticker b then q else 0) in
          net b' = net b + moved -
            (case map_of (bot_unconfirmed b) (fill_order_id fill) of
               None \<Rightarrow> 0 | Some u \<Rightarrow> if overshoots u q then u else q))"
  proof (cases "parse_contracts (count_fp fill)")
    case None
    with assms(1) show ?thesis by (simp add: on_fill_def)
  next
    case (Some qty)
    define q where "q = signed_qty (fill_action fill) qty"
    from Some assms(1) obtain positions u where
      p: "update_positions (fill_market_ticker fill) q (bot_positions b) = Some positions" and
      u: "confirm (fill_order_id fill) q (bot_unconfirmed b) = Some u" and
      b': "b' = b\<lparr>bot_orders := update_status (fill_order_id fill) Filled (bot_orders b), bot_positions := positions, bot_unconfirmed := u\<rparr>"
      by (auto simp: on_fill_def q_def split: option.splits)
    from get_position_update [OF p, of "bot_ticker b"] confirm_total(1) [OF _ u] assms(2) show ?thesis
      by (auto simp: Some Let_def q_def [symmetric] b' net_def ledger_inv_def split: option.splits)
  qed
qed

section \<open>The steps of the loop\<close>

datatype event = Quiet | OrderPlaced Signal "string + JsonValue" | FillSeen Fill

definition same_ledger :: "'d TradingBot \<Rightarrow> 'd TradingBot \<Rightarrow> bool" where
  "same_ledger b b' \<longleftrightarrow> bot_ticker b' = bot_ticker b \<and> bot_positions b' = bot_positions b \<and>
     bot_unconfirmed b' = bot_unconfirmed b \<and> st_config (bot_strategy b') = st_config (bot_strategy b)"

inductive bot_step :: "'d double_ops \<Rightarrow> 'd TradingBot \<Rightarrow> event \<Rightarrow> 'd TradingBot \<Rightarrow> bool" for D where
  step_quiet: "same_ledger b b' \<Longrightarrow> bot_step D b Quiet b'"
| step_order: "exposure b = Some e \<Longrightarrow> on_book_update D (bot_strategy b) book e now = Some (Some signal, st) \<Longrightarrow>
    same_ledger b b1 \<Longrightarrow> order_result b1 signal req result = Some b' \<Longrightarrow> bot_step D b (OrderPlaced signal result) b'"
| step_fill: "on_fill b f = Some b' \<Longrightarrow> bot_step D b (FillSeen f) b'"

text \<open>Runs whose steps all satisfy \<open>P\<close>, a condition on the state before the step and the event.\<close>

inductive bot_steps :: "('d TradingBot \<Rightarrow> event \<Rightarrow> bool) \<Rightarrow> 'd double_ops \<Rightarrow> 'd TradingBot \<Rightarrow> event list \<Rightarrow> 'd TradingBot \<Rightarrow> bool"
  for P D where
  steps_nil: "bot_steps P D b [] b"
| steps_cons: "bot_step D b ev b1 \<Longrightarrow> P b ev \<Longrightarrow> bot_steps P D b1 evs b' \<Longrightarrow> bot_steps P D b (ev # evs) b'"

inductive_cases bot_step_QuietE: "bot_step D b Quiet b'"
inductive_cases bot_step_OrderE: "bot_step D b (OrderPlaced signal result) b'"
inductive_cases bot_step_FillE: "bot_step D b (FillSeen f) b'"

lemma same_ledger_refl [simp]: "same_ledger b b"
  by (simp add: same_ledger_def)

lemma same_ledger_trans: "same_ledger b c \<Longrightarrow> same_ledger c d \<Longrightarrow> same_ledger b d"
  by (simp add: same_ledger_def)

lemma steps_trans: "bot_steps P D b evs b1 \<Longrightarrow> bot_steps P D b1 evs' b' \<Longrightarrow> bot_steps P D b (evs @ evs') b'"
  by (induction rule: bot_steps.induct) (auto intro: bot_steps.intros)

abbreviation reaches :: "'d double_ops \<Rightarrow> 'd TradingBot \<Rightarrow> 'd TradingBot \<Rightarrow> bool" where
  "reaches D b b' \<equiv> \<exists>evs. bot_steps (\<lambda>_ _. True) D b evs b'"

lemma reaches_step: "bot_step D b ev b' \<Longrightarrow> reaches D b b'"
  by (rule exI [of _ "[ev]"]) (simp add: bot_steps.intros)

lemma reaches_quiet: "same_ledger b b' \<Longrightarrow> reaches D b b'"
  by (rule reaches_step [OF step_quiet])

lemma reaches_trans: "reaches D b b1 \<Longrightarrow> reaches D b1 b' \<Longrightarrow> reaches D b b'"
  using steps_trans by blast

section \<open>The loops refine the steps\<close>

lemma submit_wp:
  "io_wp (submit b signal t) (\<lambda>b' _. \<exists>b1 req result. same_ledger b b1 \<and> bot_strategy b1 = bot_strategy b \<and>
     order_result b1 signal req result = Some b') w"
proof (rule io_wpI)
  fix b' w'
  assume "submit b signal t w = Some (b', w')"
  then obtain seq http st1 st2 req result where
    res: "order_result (b\<lparr>bot_order_seq := seq, bot_http := http, bot_tick_to_order := st1, bot_order_round_trip := st2\<rparr>) signal req result = Some b'"
    (is "order_result ?b1 _ _ _ = _")
    unfolding submit_def Let_def by (auto simp: io_bind_Some io_of_def)
  have "same_ledger b ?b1" "bot_strategy ?b1 = bot_strategy b" by (simp_all add: same_ledger_def)
  with res show "\<exists>b1 req result. same_ledger b b1 \<and> bot_strategy b1 = bot_strategy b \<and> order_result b1 signal req result = Some b'"
    by blast
qed

lemma trade_wp: "io_wp (trade D b t_rx t_decoded) (\<lambda>b' _. reaches D b b') w"
proof (rule io_wpI)
  fix b' w'
  assume "trade D b t_rx t_decoded w = Some (b', w')"
  then obtain e now signal st st1 w1 where e: "exposure b = Some e"
    and upd: "on_book_update D (bot_strategy b) (bot_book b) e now = Some (signal, st)"
    and res: "(case signal of None \<Rightarrow> io_return (b\<lparr>bot_strategy := st, bot_book_and_strategy := st1\<rparr>)
        | Some sg \<Rightarrow> submit (b\<lparr>bot_strategy := st, bot_book_and_strategy := st1\<rparr>) sg t_rx) w1 = Some (b', w')"
    unfolding trade_def Let_def by (auto simp: io_bind_Some io_of_def)
  let ?b1 = "b\<lparr>bot_strategy := st, bot_book_and_strategy := st1\<rparr>"
  have same: "same_ledger b ?b1" using on_book_update_config [OF upd] by (simp add: same_ledger_def)
  show "reaches D b b'"
  proof (cases signal)
    case None
    with res same show ?thesis by (auto intro: reaches_quiet)
  next
    case (Some sg)
    with res io_wpD [OF submit_wp] obtain b2 req result where
      "same_ledger ?b1 b2" "order_result b2 sg req result = Some b'" by fastforce
    moreover from this(1) same have "same_ledger b b2" by (simp add: same_ledger_def)
    ultimately have "bot_step D b (OrderPlaced sg result) b'"
      using step_order [OF e upd [unfolded Some]] by blast
    then show ?thesis by (rule reaches_step)
  qed
qed

lemma check_sequence_same: "check_sequence b m = Some b' \<Longrightarrow> same_ledger b b'"
  by (auto simp: check_sequence_def same_ledger_def split: if_splits)

lemma apply_message_reaches: "apply_message b m = Some (eff, b') \<Longrightarrow> reaches D b b'"
proof (cases "msg_payload m")
  case (MsgFill f)
  assume "apply_message b m = Some (eff, b')"
  with MsgFill have "bot_step D b (FillSeen f) b'" by (auto simp: apply_message_def intro: step_fill)
  then show ?thesis by (rule reaches_step)
qed (auto simp: apply_message_def on_book_error_def request_stop_def same_ledger_def
    intro!: reaches_quiet split: prod.splits sum.splits option.splits if_splits)

lemma is_running_same: "is_running b w = Some ((go, b'), w') \<Longrightarrow> same_ledger b b'"
  by (auto simp: is_running_def io_bind_Some request_stop_def same_ledger_def split: if_splits)

lemma housekeeping_same: "housekeeping b t w = Some ((b', t'), w') \<Longrightarrow> same_ledger b b'"
  unfolding housekeeping_def keep_http_warm_def print_status_def
  by (auto simp: io_bind_Some same_ledger_def split: if_splits)

interpretation ledger: bot_relation D "reaches D" for D
  by unfold_locales
    (auto intro: reaches_quiet reaches_trans apply_message_reaches same_ledger_refl check_sequence_same
      io_wpD [OF trade_wp] dest: is_running_same housekeeping_same simp: same_ledger_def)

section \<open>The position limit\<close>

text \<open>
  What the limit relies on in the exchange: an order fills at most the size that was ordered, and a
  fill message confirms, at most once, what an order response has reported.
\<close>

definition honest :: "'d TradingBot \<Rightarrow> event \<Rightarrow> bool" where
  "honest b ev =
     (case ev of
        Quiet \<Rightarrow> True
      | OrderPlaced signal result \<Rightarrow>
         (case result of
            Inl _ \<Rightarrow> True
          | Inr json \<Rightarrow>
             (case parse_order_response json of
                Inl _ \<Rightarrow> True
              | Inr parsed \<Rightarrow>
                 (case parse_contracts (resp_fill_count parsed) of
                    None \<Rightarrow> True
                  | Some filled \<Rightarrow> filled \<le> sig_count signal)))
      | FillSeen f \<Rightarrow>
         (case parse_contracts (count_fp f) of
            None \<Rightarrow> True
          | Some qty \<Rightarrow>
              let q = signed_qty (fill_action f) qty; u = pending (bot_unconfirmed b) (fill_order_id f) in
              fill_market_ticker f = bot_ticker b \<and> (0 < q \<and> q \<le> u \<or> u \<le> q \<and> q < 0)))"

definition capped :: "StrategyConfig \<Rightarrow> 'd TradingBot \<Rightarrow> bool" where
  "capped cfg b \<longleftrightarrow> ledger_inv b \<and> st_config (bot_strategy b) = cfg \<and> \<bar>net b\<bar> \<le> max_position cfg"

lemma same_ledger_net: "same_ledger b b' \<Longrightarrow> net b' = net b" "same_ledger b b' \<Longrightarrow> ledger_inv b' = ledger_inv b"
  by (simp_all add: same_ledger_def net_def ledger_inv_def)

lemma confirmed_fill:
  assumes "on_fill b f = Some b'" and "ledger_inv b" and "honest b (FillSeen f)"
  shows "net b' = net b"
proof (cases "parse_contracts (count_fp f)")
  case None
  with on_fill_ledger(4) [OF assms(1,2)] show ?thesis by simp
next
  case (Some qty)
  define q where "q = signed_qty (fill_action f) qty"
  define u where "u = pending (bot_unconfirmed b) (fill_order_id f)"
  from assms(3) Some have h: "fill_market_ticker f = bot_ticker b" "0 < q \<and> q \<le> u \<or> u \<le> q \<and> q < 0"
    by (simp_all add: honest_def Let_def q_def u_def)
  then have "u \<noteq> 0" by auto
  then have "map_of (bot_unconfirmed b) (fill_order_id f) = Some u"
    by (auto simp: u_def pending_def split: option.splits)
  moreover have "overshoots u q \<longleftrightarrow> u = q" using h(2) by (auto simp: overshoots_def)
  ultimately show ?thesis using on_fill_ledger(4) [OF assms(1,2)] h(1) by (simp add: Some Let_def q_def [symmetric])
qed

lemma capped_step:
  assumes "bot_step D b ev b'" and "honest b ev" and "capped cfg b"
  shows "capped cfg b'"
  using assms(1)
proof cases
  case step_quiet
  with assms(3) same_ledger_net [OF step_quiet(2)] show ?thesis by (simp add: capped_def same_ledger_def)
next
  case (step_fill f)
  with assms confirmed_fill [of b f b'] on_fill_ledger(1,3) [of b f b'] show ?thesis by (simp add: capped_def)
next
  case (step_order e book now signal st b1 req result)
  note same = same_ledger_net [OF step_order(4)]
  have inv: "ledger_inv b1" using assms(3) same by (simp add: capped_def)
  note res = order_result_ledger [OF step_order(5) inv]
  have cfg: "st_config (bot_strategy b') = st_config (bot_strategy b)" using step_order(4) res(4) by (simp add: same_ledger_def)
  have e: "e = net b" by (rule exposure_net [OF step_order(2)])
  have lim: "sig_count signal = order_size (st_config (bot_strategy b))"
    "case sig_side signal of Bid \<Rightarrow> net b + sig_count signal \<le> max_position (st_config (bot_strategy b))
     | Ask \<Rightarrow> - max_position (st_config (bot_strategy b)) \<le> net b - sig_count signal"
    using signal_limits [OF step_order(3)] by (auto simp: within_limits_def e split: OrderSide.splits)
  show ?thesis
    using res(5)
  proof
    assume "net b' = net b1"
    with assms(3) res(1) same cfg show ?thesis by (simp add: capped_def)
  next
    assume "\<exists>json parsed filled. result = Inr json \<and> parse_order_response json = Inr parsed \<and>
      parse_contracts (resp_fill_count parsed) = Some filled \<and> 0 < filled \<and>
      net b' = net b1 + (if sig_side signal = Bid then filled else - filled)"
    then obtain filled where "filled \<le> sig_count signal" "0 < filled"
      "net b' = net b + (if sig_side signal = Bid then filled else - filled)"
      using assms(2) step_order(1) same by (auto simp: honest_def)
    with lim assms(3) res(1) cfg show ?thesis by (cases "sig_side signal") (auto simp: capped_def)
  qed
qed

lemma capped_steps: "bot_steps honest D b evs b' \<Longrightarrow> capped cfg b \<Longrightarrow> capped cfg b'"
  by (induction rule: bot_steps.induct) (auto intro: capped_step)

section \<open>Properties\<close>

text \<open>
  C4. The position limit holds: starting from a new bot, whatever messages, books, times and roundings, as
  long as orders fill at most their size and fill messages confirm reported fills of this market,
  the exposure never exceeds the configured maximum in either direction.
\<close>

theorem exposure_capped:
  assumes "bot_steps honest D (TradingBot_init ticker kid cfg) evs b" and "0 \<le> max_position cfg" and "exposure b = Some e"
  shows "- max_position cfg \<le> e \<and> e \<le> max_position cfg"
proof -
  have "capped cfg (TradingBot_init ticker kid cfg)" for ticker kid
    using assms(2) by (simp add: capped_def ledger_inv_def net_def sum_of_def get_position_def TradingBot_init_def Strategy_init_def)
  from capped_steps [OF assms(1) this] exposure_net [OF assms(3)] show ?thesis by (auto simp: capped_def)
qed


text \<open>
  What a fill does to the exposure, on every branch: an unreadable count changes nothing; a fill of
  an order without unconfirmed part moves the exposure by the fill; a fill within the unconfirmed part
  leaves it unchanged; one that goes beyond it replaces the unconfirmed part by the fill.
\<close>

theorem on_fill_exposure:
  assumes "on_fill b fill = Some b'" and "ledger_inv b" and "fill_market_ticker fill = bot_ticker b"
    and "exposure b = Some e" and "exposure b' = Some e'"
  shows "case parse_contracts (count_fp fill) of
      None \<Rightarrow> e' = e
    | Some qty \<Rightarrow>
       (let q = signed_qty (fill_action fill) qty in
        case map_of (bot_unconfirmed b) (fill_order_id fill) of
          None \<Rightarrow> e' = e + q
        | Some u \<Rightarrow> e' = (if u = q \<or> (0 < u) = (0 < u - q) then e else e - u + q))"
  using on_fill_ledger(4) [OF assms(1,2)] assms(3) exposure_net [OF assms(4)] exposure_net [OF assms(5)]
  by (auto simp: Let_def overshoots_def split: option.splits if_splits)

definition sample_bot :: "real TradingBot" where
  "sample_bot = TradingBot_init ''T'' ''id'' eager"

definition sample_result :: "string + JsonValue" where
  "sample_result = Inr (JObject [(''fill_count'', JString ''1.00''), (''order_id'', JString ''o''),
     (''remaining_count'', JString ''0.00''), (''ts_ms'', JString ''1'')])"

definition sample_order :: Order where
  "sample_order = \<lparr>order_id = ''o'', order_request = make_ioc_order ''T'' \<lparr>sig_side = Bid, sig_price = 480, sig_count = 1\<rparr> [],
     order_status = Filled, fill_count = ''1.00'', remaining_count = ''0.00''\<rparr>"

definition filled_bot :: "real TradingBot" where
  "filled_bot = sample_bot\<lparr>bot_orders := [''o'' \<mapsto> sample_order], bot_unconfirmed := [(''o'', 1)]\<rparr>"

lemma sample_counts: "parse_contracts ''1.00'' = Some 1" "parse_contracts ''0.00'' = Some 0"
  by code_simp+

lemma sample_response_parsed:
  "parse_order_response (JObject [(''fill_count'', JString ''1.00''), (''order_id'', JString ''o''),
     (''remaining_count'', JString ''0.00''), (''ts_ms'', JString ''1'')]) =
   Inr \<lparr>resp_order_id = ''o'', resp_fill_count = ''1.00'', resp_remaining_count = ''0.00'', resp_ts_ms = 1, resp_client_order_id = []\<rparr>"
proof -
  have "show_nat 1 = ''1''" by code_simp
  with from_chars_show_nat [of 1 UINT64_MAX] have "from_chars UINT64_MAX ''1'' = Some (1, [])" by (simp add: UINT64_MAX_def)
  then show ?thesis by (simp add: parse_order_response_def get_string_def get_uint64_def)
qed

lemma sample_order_step:
  "bot_step real_ops sample_bot (OrderPlaced \<lparr>sig_side = Bid, sig_price = 480, sig_count = 1\<rparr> sample_result) filled_bot"
proof (rule step_order)
  show "exposure sample_bot = Some 0" by (simp add: exposure_def sample_bot_def TradingBot_init_def get_position_def)
  show "on_book_update real_ops (bot_strategy sample_bot) sample_book 0 7 = Some (Some \<lparr>sig_side = Bid, sig_price = 480, sig_count = 1\<rparr>,
       \<lparr>st_config = eager, st_ema = Some 465, st_first_update = 7, st_last_update = 7, st_last_order = Some 7\<rparr>)"
    using sample_signal by (simp add: sample_bot_def TradingBot_init_def)
  show "order_result sample_bot \<lparr>sig_side = Bid, sig_price = 480, sig_count = 1\<rparr> (make_ioc_order ''T'' \<lparr>sig_side = Bid, sig_price = 480, sig_count = 1\<rparr> [])
      sample_result = Some filled_bot"
    by (simp add: order_result_def sample_result_def sample_response_parsed sample_counts add_unconfirmed_def add64_def in_int64_def
        INT64_MAX_def INT64_MIN_def filled_bot_def sample_order_def add_order_def) (simp add: sample_bot_def TradingBot_init_def)
qed simp

theorem exposure_capped_witness:
  "bot_steps honest real_ops (TradingBot_init ''T'' ''id'' eager)
     [OrderPlaced \<lparr>sig_side = Bid, sig_price = 480, sig_count = 1\<rparr> sample_result] filled_bot \<and>
   exposure filled_bot = Some 1 \<and> (1::int) \<le> max_position eager"
proof -
  have "honest sample_bot (OrderPlaced \<lparr>sig_side = Bid, sig_price = 480, sig_count = 1\<rparr> sample_result)"
    by (simp add: honest_def sample_result_def sample_response_parsed sample_counts)
  with sample_order_step have s: "bot_steps honest real_ops (TradingBot_init ''T'' ''id'' eager)
     [OrderPlaced \<lparr>sig_side = Bid, sig_price = 480, sig_count = 1\<rparr> sample_result] filled_bot"
    unfolding sample_bot_def [symmetric] by (auto intro: bot_steps.intros)
  have e: "exposure filled_bot = Some 1"
    by (simp add: exposure_def filled_bot_def add64_def in_int64_def INT64_MAX_def INT64_MIN_def)
      (simp add: sample_bot_def TradingBot_init_def get_position_def)
  have "0 \<le> max_position eager" by simp
  from exposure_capped [OF s this e] s e show ?thesis by simp
qed

definition sample_fill :: Fill where
  "sample_fill = \<lparr>fill_order_id = ''o'', fill_market_ticker = ''T'', count_fp = ''1.00'', fill_action = Buy\<rparr>"

theorem on_fill_exposure_witness:
  "\<exists>b' e'. on_fill filled_bot sample_fill = Some b' \<and> exposure filled_bot = Some 1 \<and> exposure b' = Some e' \<and> e' = 1"
proof -
  have e: "exposure filled_bot = Some 1"
    by (simp add: exposure_def filled_bot_def add64_def in_int64_def INT64_MAX_def INT64_MIN_def)
      (simp add: sample_bot_def TradingBot_init_def get_position_def)
  have "\<exists>b' e'. on_fill filled_bot sample_fill = Some b' \<and> exposure b' = Some e'"
    by (simp add: on_fill_def sample_fill_def sample_counts signed_qty_def filled_bot_def update_positions_def confirm_def
        sub64_def add64_def in_int64_def INT64_MAX_def INT64_MIN_def exposure_def)
      (simp add: sample_bot_def TradingBot_init_def get_position_def)
  then obtain b' e' where run: "on_fill filled_bot sample_fill = Some b'" "exposure b' = Some e'" by blast
  have inv: "ledger_inv filled_bot" by (simp add: ledger_inv_def filled_bot_def)
  have t: "fill_market_ticker sample_fill = bot_ticker filled_bot"
    by (simp add: sample_fill_def filled_bot_def sample_bot_def TradingBot_init_def)
  from on_fill_exposure [OF run(1) inv t e run(2)] have "e' = 1"
    by (simp add: sample_fill_def sample_counts signed_qty_def filled_bot_def)
  with e run show ?thesis by blast
qed


end
