(* ===== verification/Json_Roundtrip.thy ===== *)
theory Json_Roundtrip
  imports Kalshi_Messages
begin

text \<open>
  Printing a JSON tree with \<open>to_json_string\<close> and parsing the text again gives the tree back.
  The lemmas follow the reader: what \<open>next_token\<close> does on printed punctuation, words and quoted
  strings at a position of a larger text, then the container loops, then \<open>parse\<close>.
\<close>

section \<open>Escapes\<close>

lemma nibbles: "push_bit 4 (n div 16) OR n mod 16 = (n :: nat)"
proof -
  have "push_bit 4 (drop_bit 4 n) OR take_bit 4 n = n"
    by (rule bit_eqI) (auto simp: bit_simps)
  then show ?thesis by (simp add: drop_bit_eq_div take_bit_eq_mod)
qed

lemma hex4_show_hex4: "n < 32 \<Longrightarrow> hex4 (show_hex4 n @ r) = n"
proof -
  assume n: "n < 32"
  have "hex4 (show_hex4 n @ r) = foldl (\<lambda>v d. push_bit 4 v OR d) 0 [0, 0, n div 16, n mod 16]"
    using n hex_char_val [of 0] hex_char_val [of "n div 16"] hex_char_val [of "n mod 16"]
    by (simp add: hex4_def show_hex4_def)
  also have "\<dots> = n" by (simp add: nibbles)
  finally show ?thesis .
qed

lemma length_show_hex4 [simp]: "length (show_hex4 n) = 4"
  by (simp add: show_hex4_def)

text \<open>The three ways a character is printed, and what each is read back as.\<close>

lemma quote_char_cases:
  obtains (simple) d where "quote_char c = [BACKSLASH, d]" "unescape d = Some c" "simple_escape d"
  | (ctrl) "quote_char c = [BACKSLASH, CHR ''u''] @ show_hex4 (code c)" "code c < 32"
  | (plain) "quote_char c = [c]" "c \<noteq> DQUOTE" "c \<noteq> BACKSLASH" "\<not> code c < 32"
proof -
  consider "c = DQUOTE" | "c = BACKSLASH" | "c = LF" | "c = CR" | "c = TAB"
    | (other) "c \<noteq> DQUOTE" "c \<noteq> BACKSLASH" "c \<noteq> LF" "c \<noteq> CR" "c \<noteq> TAB" by blast
  then show thesis
  proof cases
    case 1 show thesis by (rule simple [of DQUOTE]) (simp_all add: 1 quote_char_def unescape_def simple_escape_def)
  next
    case 2 show thesis by (rule simple [of BACKSLASH]) (simp_all add: 2 quote_char_def unescape_def simple_escape_def)
  next
    case 3 show thesis by (rule simple [of "CHR ''n''"]) (simp_all add: 3 quote_char_def unescape_def simple_escape_def)
  next
    case 4 show thesis by (rule simple [of "CHR ''r''"]) (simp_all add: 4 quote_char_def unescape_def simple_escape_def)
  next
    case 5 show thesis by (rule simple [of "CHR ''t''"]) (simp_all add: 5 quote_char_def unescape_def simple_escape_def)
  next
    case other
    then show thesis using ctrl plain by (cases "code c < 32") (simp_all add: quote_char_def)
  qed
qed

lemma unescape_u: "unescape (CHR ''u'') = None"
  by (simp add: unescape_def)

lemma decode_quote_char: "decode_loop (quote_char c @ r) out = decode_loop r (out @ [c])"
proof (cases c rule: quote_char_cases)
  case (simple d)
  then show ?thesis by (simp add: decode_loop.simps(2))
next
  case ctrl
  have "append_utf8 out (code c) = out @ [c]"
    using ctrl(2) by (simp add: append_utf8_def) (simp add: code_def)
  with ctrl show ?thesis
    by (simp add: decode_loop.simps(2) unescape_u hex4_show_hex4 Let_def)
next
  case plain
  then show ?thesis by (simp add: decode_loop.simps(2))
qed

lemma decode_quoted: "decode_loop (concat (map quote_char x)) out = Inr (out @ x)"
  by (induction x arbitrary: out) (simp_all add: decode_quote_char)

section \<open>Tokens of printed text\<close>

lemma hex_loop_ok:
  "drop (Suc p) s = hs @ r \<Longrightarrow> list_all is_hex hs \<Longrightarrow> hex_loop s p (length hs) = Inr (p + length hs)"
proof (induction hs arbitrary: p)
  case (Cons h hs)
  then have "Suc p < length s" "s ! Suc p = h" "drop (Suc (Suc p)) s = hs @ r"
    by (simp_all add: drop_eq_Cons_conv)
  with Cons show ?case by simp
qed simp

lemma show_hex4_hex: "n < 32 \<Longrightarrow> list_all is_hex (show_hex4 n)"
  using hex_char_val by (simp add: show_hex4_def)

lemma string_loop_quote_char:
  assumes "drop p s = quote_char c @ r"
  shows "string_loop s start p esc =
    string_loop s start (p + length (quote_char c)) (esc \<or> quote_char c \<noteq> [c])"
proof (cases c rule: quote_char_cases)
  case (simple d)
  then have "p < length s" "s ! p = BACKSLASH" "Suc p < length s" "s ! Suc p = d"
    using assms by (auto simp: drop_eq_Cons_conv)
  then show ?thesis using simple by (subst string_loop.simps) (simp add: code_def)
next
  case ctrl
  then have d: "p < length s" "s ! p = BACKSLASH" "Suc p < length s" "s ! Suc p = CHR ''u''"
    "drop (Suc (Suc p)) s = show_hex4 (code c) @ r"
    using assms by (auto simp: drop_eq_Cons_conv)
  have "\<not> simple_escape (CHR ''u'')" by (simp add: simple_escape_def)
  moreover have "hex_loop s (Suc p) 4 = Inr (Suc p + 4)"
    using hex_loop_ok [OF d(5) show_hex4_hex [OF ctrl(2)]] by simp
  ultimately show ?thesis using d ctrl(1)
    by (subst string_loop.simps) (simp add: code_def add.commute)
next
  case plain
  then have "p < length s" "s ! p = c" using assms by (simp_all add: drop_eq_Cons_conv)
  then show ?thesis using plain by (subst string_loop.simps) simp
qed

lemma string_loop_quoted:
  "drop p s = concat (map quote_char x) @ DQUOTE # r \<Longrightarrow>
   string_loop s start p esc =
     Inr (\<lparr>tok_type = String_tok,
           tok_text = substr s start (p + length (concat (map quote_char x)) - start),
           has_escapes = esc \<or> (\<exists>c \<in> set x. quote_char c \<noteq> [c])\<rparr>,
          p + length (concat (map quote_char x)) + 1)"
proof (induction x arbitrary: p esc)
  case Nil
  then show ?case by (subst string_loop.simps) (simp add: drop_eq_Cons_conv)
next
  case (Cons c x)
  let ?q = "p + length (quote_char c)"
  have d: "drop p s = quote_char c @ (concat (map quote_char x) @ DQUOTE # r)"
    using Cons.prems by simp
  from Cons.IH [OF drop_append_advance [OF d], of "esc \<or> quote_char c \<noteq> [c]"]
  show ?case unfolding string_loop_quote_char [OF d]
    by (simp add: add.assoc)
qed

lemma skip_ws_stop: "p < length s \<Longrightarrow> \<not> is_space (s ! p) \<Longrightarrow> skip_ws s p = p"
  by (simp add: skip_ws.simps [of s p])

lemma concat_plain: "\<forall>c \<in> set x. quote_char c = [c] \<Longrightarrow> concat (map quote_char x) = x"
  by (induction x) auto

lemma lex_quoted:
  assumes "drop p s = json_quote x @ r"
  obtains tok where "next_token \<lparr>lx_input = s, lx_pos = p\<rparr> =
      Inr (tok, \<lparr>lx_input = s, lx_pos = p + length (json_quote x)\<rparr>)"
    "tok_type tok = String_tok" "\<And>lx. string_value tok lx = Inr x"
proof -
  let ?q = "concat (map quote_char x)"
  have s: "p < length s" "s ! p = DQUOTE" "drop (Suc p) s = ?q @ DQUOTE # r"
    using assms by (simp_all add: json_quote_def drop_eq_Cons_conv)
  have ws: "skip_ws s p = p"
    using s(1,2) by (simp add: skip_ws_stop is_space_def)
  define tok where "tok = \<lparr>tok_type = String_tok, tok_text = ?q,
    has_escapes = (\<exists>c \<in> set x. quote_char c \<noteq> [c])\<rparr>"
  have raw: "substr s (Suc p) (length ?q) = ?q"
    using s(3) by (simp add: substr_def)
  have "next_token \<lparr>lx_input = s, lx_pos = p\<rparr> =
      Inr (tok, \<lparr>lx_input = s, lx_pos = p + length (json_quote x)\<rparr>)"
    using s(1,2) string_loop_quoted [OF s(3), of "Suc p" False] raw
    by (simp add: next_token_def ws punctuation_def lex_string_def tok_def json_quote_def)
  moreover have "string_value tok lx = Inr x" for lx
    using concat_plain [of x] decode_quoted [of x "[]"]
    by (auto simp: string_value_def tok_def decode_json_string_def)
  ultimately show thesis using that [of tok] by (simp add: tok_def)
qed

lemma lex_punct:
  assumes "drop p s = c # r" and "punctuation c = Some ty"
  shows "next_token \<lparr>lx_input = s, lx_pos = p\<rparr> =
    Inr (plain_token ty [c], \<lparr>lx_input = s, lx_pos = p + 1\<rparr>)"
proof -
  have s: "p < length s" "s ! p = c" using assms by (simp_all add: drop_eq_Cons_conv)
  have "\<not> is_space c"
    using assms(2) by (auto simp: punctuation_def is_space_def split: if_splits)
  with s assms show ?thesis
    by (simp add: next_token_def skip_ws_stop substr_def)
qed

section \<open>Trees the parser can return\<close>

text \<open>
  \<open>fits depth v\<close>: \<open>v\<close> can stand at nesting depth \<open>depth\<close>, that is no container is
  \<open>kMaxJsonDepth\<close> deep and the keys of every object are in order without duplicates.
\<close>

fun fits :: "nat \<Rightarrow> JsonValue \<Rightarrow> bool" where
  "fits depth (JArray vs) \<longleftrightarrow> depth < kMaxJsonDepth \<and> list_all (fits (depth + 1)) vs"
| "fits depth (JObject ms) \<longleftrightarrow>
     depth < kMaxJsonDepth \<and> sorted_keys ms \<and> list_all (\<lambda>kv. fits (depth + 1) (snd kv)) ms"
| "fits depth _ \<longleftrightarrow> True"

section \<open>Reading printed values\<close>

lemma comma_join_tail:
  "concat (map (\<lambda>(i, x). (if i \<noteq> 0 then '','' else []) @ x) (enumerate (Suc n) xss)) = concat (map ((@) '','') xss)"
  by (induction xss arbitrary: n) auto

lemma comma_join_Nil [simp]: "comma_join [] = []"
  and comma_join_Cons: "comma_join (x # xs) = x @ concat (map ((@) '','') xs)"
  using comma_join_tail [of 0 xs] by (simp_all add: comma_join_def)

lemma comma_join_one [simp]: "comma_join [x] = x"
  and comma_join_two: "comma_join (x # y # ys) = x @ '','' @ comma_join (y # ys)"
  by (simp_all add: comma_join_Cons)

lemma comma_join_length: "length xs < length (comma_join (x # xs)) + 1"
proof -
  have "length xs \<le> length (concat (map ((@) '','') xs))" by (induction xs) auto
  then show ?thesis by (simp add: comma_join_Cons)
qed

lemma lex_word:
  assumes "drop p s = w @ r" and "(w, ty) \<in> set literal_words"
  shows "next_token \<lparr>lx_input = s, lx_pos = p\<rparr> =
    Inr (plain_token ty w, \<lparr>lx_input = s, lx_pos = p + length w\<rparr>)"
proof -
  consider "w = ''true''" "ty = True_tok" | "w = ''false''" "ty = False_tok" | "w = ''null''" "ty = Null_tok"
    using assms(2) by (auto simp: literal_words_def)
  then show ?thesis
  proof cases
    case 1
    then have "p < length s" "s ! p = CHR ''t''" using assms(1) by (simp_all add: drop_eq_Cons_conv)
    with 1 assms(1) show ?thesis
      by (simp add: next_token_def skip_ws_stop is_space_def punctuation_def literal_words_def starts_with_def)
  next
    case 2
    then have "p < length s" "s ! p = CHR ''f''" using assms(1) by (simp_all add: drop_eq_Cons_conv)
    with 2 assms(1) show ?thesis
      by (simp add: next_token_def skip_ws_stop is_space_def punctuation_def literal_words_def starts_with_def)
  next
    case 3
    then have "p < length s" "s ! p = CHR ''n''" using assms(1) by (simp_all add: drop_eq_Cons_conv)
    with 3 assms(1) show ?thesis
      by (simp add: next_token_def skip_ws_stop is_space_def punctuation_def literal_words_def starts_with_def)
  qed
qed

text \<open>\<open>reads_back pv v\<close>: wherever \<open>v\<close> is printed, \<open>pv\<close> reads it and stops right after it.\<close>

definition reads_back :: "value_parser \<Rightarrow> JsonValue \<Rightarrow> bool" where
  "reads_back pv v \<longleftrightarrow>
     (\<forall>s p r. drop p s = to_json_string v @ r \<longrightarrow>
        (\<exists>tok lx1. next_token \<lparr>lx_input = s, lx_pos = p\<rparr> = Inr (tok, lx1) \<and>
           tok_type tok \<noteq> RightBracket \<and>
           pv tok lx1 = Inr (v, \<lparr>lx_input = s, lx_pos = p + length (to_json_string v)\<rparr>)))"

lemma reads_backE:
  assumes "reads_back pv v" and "drop p s = to_json_string v @ r"
  obtains tok lx1 where "next_token \<lparr>lx_input = s, lx_pos = p\<rparr> = Inr (tok, lx1)"
    "tok_type tok \<noteq> RightBracket"
    "pv tok lx1 = Inr (v, \<lparr>lx_input = s, lx_pos = p + length (to_json_string v)\<rparr>)"
  using assms unfolding reads_back_def by blast

lemma punctuation_values [simp]:
  "punctuation (CHR '','') = Some Comma" "punctuation (CHR '':'') = Some Colon"
  "punctuation (CHR ''['') = Some LeftBracket" "punctuation (CHR '']'') = Some RightBracket"
  "punctuation (CHR 0x7B) = Some LeftBrace" "punctuation (CHR 0x7D) = Some RightBrace"
  by (simp_all add: punctuation_def)

lemma plain_token_type [simp]: "tok_type (plain_token ty t) = ty" "tok_text (plain_token ty t) = t"
  "has_escapes (plain_token ty t) = False"
  by (simp_all add: plain_token_def)

lemma array_loop_printed:
  assumes "\<forall>v \<in> set (v # vs). reads_back pv v"
    and "drop p s = comma_join (map to_json_string (v # vs)) @ CHR '']'' # r"
    and "next_token \<lparr>lx_input = s, lx_pos = p\<rparr> = Inr (tok, lx1)" and "length vs < fuel"
  shows "array_loop fuel pv tok acc lx1 =
    Inr (acc @ v # vs, \<lparr>lx_input = s, lx_pos = p + length (comma_join (map to_json_string (v # vs))) + 1\<rparr>)"
  using assms
proof (induction vs arbitrary: v p tok lx1 fuel acc)
  case Nil
  obtain f where f: "fuel = Suc f" using Nil.prems(4) by (cases fuel) auto
  have d: "drop p s = to_json_string v @ CHR '']'' # r" using Nil.prems(2) by simp
  have "reads_back pv v" using Nil.prems(1) by simp
  from reads_backE [OF this d] Nil.prems(3)
  have "pv tok lx1 = Inr (v, \<lparr>lx_input = s, lx_pos = p + length (to_json_string v)\<rparr>)" by auto
  with lex_punct [OF drop_append_advance [OF d]] f show ?case by simp
next
  case (Cons w vs)
  obtain f where f: "fuel = Suc f" using Cons.prems(4) by (cases fuel) auto
  let ?q = "p + length (to_json_string v)"
  have d: "drop p s = to_json_string v @ CHR '','' # comma_join (map to_json_string (w # vs)) @ CHR '']'' # r"
    using Cons.prems(2) by (simp add: comma_join_two)
  then have d1: "drop p s = (to_json_string v @ '','') @ comma_join (map to_json_string (w # vs)) @ CHR '']'' # r"
    by simp
  have dq: "drop (?q + 1) s = comma_join (map to_json_string (w # vs)) @ CHR '']'' # r"
    using drop_append_advance [OF d1] by simp
  have "reads_back pv v" "reads_back pv w" using Cons.prems(1) by simp_all
  from reads_backE [OF this(1) d] Cons.prems(3)
  have pv: "pv tok lx1 = Inr (v, \<lparr>lx_input = s, lx_pos = ?q\<rparr>)" by auto
  have dw: "drop (?q + 1) s = to_json_string w @ concat (map ((@) '','') (map to_json_string vs)) @ CHR '']'' # r"
    using dq by (simp add: comma_join_Cons)
  from reads_backE [OF \<open>reads_back pv w\<close> dw] obtain tok' lx' where
    n: "next_token \<lparr>lx_input = s, lx_pos = ?q + 1\<rparr> = Inr (tok', lx')" by metis
  have "array_loop f pv tok' (acc @ [v]) lx' =
    Inr ((acc @ [v]) @ w # vs,
      \<lparr>lx_input = s, lx_pos = ?q + 1 + length (comma_join (map to_json_string (w # vs))) + 1\<rparr>)"
    using Cons.prems f dq n by (intro Cons.IH) auto
  with pv n lex_punct [OF drop_append_advance [OF d]] f show ?case
    by (simp add: comma_join_two)
qed

lemma emplace_append: "\<forall>k' \<in> fst ` set acc. k' < k \<Longrightarrow> emplace k v acc = acc @ [(k, v)]"
  by (induction k v acc rule: emplace.induct) auto

definition emplace_all :: "JsonObject \<Rightarrow> JsonObject \<Rightarrow> JsonObject" where
  "emplace_all ms acc = foldl (\<lambda>obj (k, v). emplace k v obj) acc ms"

lemma emplace_all_simps [simp]:
  "emplace_all [] acc = acc" "emplace_all ((k, v) # ms) acc = emplace_all ms (emplace k v acc)"
  by (simp_all add: emplace_all_def)

lemma emplace_all_sorted: "sorted_keys (acc @ ms) \<Longrightarrow> emplace_all ms acc = acc @ ms"
proof (induction ms arbitrary: acc)
  case (Cons m ms)
  obtain k v where m: "m = (k, v)" by (cases m)
  have "emplace k v acc = acc @ [(k, v)]"
    using Cons.prems m by (intro emplace_append) (auto simp: sorted_wrt_append)
  with Cons.IH [of "acc @ [(k, v)]"] Cons.prems m show ?case by simp
qed simp

definition print_member :: "string \<times> JsonValue \<Rightarrow> string" where
  "print_member = (\<lambda>(k, v). json_quote k @ '':'' @ to_json_string v)"

lemma to_json_string_object:
  "to_json_string (JObject ms) = [CHR 0x7B] @ comma_join (map print_member ms) @ [CHR 0x7D]"
  by (simp add: print_member_def)

lemma member_printed:
  assumes "reads_back pv v" and "drop p s = print_member (k, v) @ r"
  obtains tok lx1 vtok lx3 where
    "next_token \<lparr>lx_input = s, lx_pos = p\<rparr> = Inr (tok, lx1)" "tok_type tok = String_tok"
    "\<And>lx. string_value tok lx = Inr k"
    "next_token lx1 = Inr (plain_token Colon '':'', \<lparr>lx_input = s, lx_pos = p + length (json_quote k) + 1\<rparr>)"
    "next_token \<lparr>lx_input = s, lx_pos = p + length (json_quote k) + 1\<rparr> = Inr (vtok, lx3)"
    "pv vtok lx3 = Inr (v, \<lparr>lx_input = s, lx_pos = p + length (print_member (k, v))\<rparr>)"
proof -
  have d: "drop p s = json_quote k @ CHR '':'' # to_json_string v @ r"
    using assms(2) by (simp add: print_member_def)
  have dq: "drop (p + length (json_quote k)) s = CHR '':'' # to_json_string v @ r"
    by (rule drop_append_advance [OF d])
  then have dv: "drop (p + length (json_quote k) + 1) s = to_json_string v @ r"
    by (simp add: drop_eq_Cons_conv)
  obtain tok where "next_token \<lparr>lx_input = s, lx_pos = p\<rparr> =
      Inr (tok, \<lparr>lx_input = s, lx_pos = p + length (json_quote k)\<rparr>)"
    "tok_type tok = String_tok" "\<And>lx. string_value tok lx = Inr k"
    using lex_quoted [OF d] by metis
  moreover obtain vtok lx3 where
    "next_token \<lparr>lx_input = s, lx_pos = p + length (json_quote k) + 1\<rparr> = Inr (vtok, lx3)"
    "pv vtok lx3 = Inr (v, \<lparr>lx_input = s, lx_pos = p + length (json_quote k) + 1 + length (to_json_string v)\<rparr>)"
    using reads_backE [OF assms(1) dv] by metis
  ultimately show thesis
    using that [of tok _ vtok lx3] lex_punct [OF dq] by (simp add: print_member_def)
qed

lemma object_loop_printed:
  assumes "\<forall>kv \<in> set (m # ms). reads_back pv (snd kv)"
    and "drop p s = comma_join (map print_member (m # ms)) @ CHR 0x7D # r"
    and "next_token \<lparr>lx_input = s, lx_pos = p\<rparr> = Inr (tok, lx1)" and "length ms < fuel"
  shows "object_loop fuel pv tok acc lx1 =
    Inr (emplace_all (m # ms) acc,
      \<lparr>lx_input = s, lx_pos = p + length (comma_join (map print_member (m # ms))) + 1\<rparr>)"
  using assms
proof (induction ms arbitrary: m p tok lx1 fuel acc)
  case Nil
  obtain f where f: "fuel = Suc f" using Nil.prems(4) by (cases fuel) auto
  obtain k v where m: "m = (k, v)" by (cases m)
  have d: "drop p s = print_member (k, v) @ CHR 0x7D # r" using Nil.prems(2) m by simp
  have "reads_back pv v" using Nil.prems(1) m by simp
  then show ?case
    by (rule member_printed [OF _ d])
      (use Nil.prems(3) lex_punct [OF drop_append_advance [OF d]] f m in simp)
next
  case (Cons m' ms)
  obtain f where f: "fuel = Suc f" using Cons.prems(4) by (cases fuel) auto
  obtain k v where m: "m = (k, v)" by (cases m)
  let ?q = "p + length (print_member (k, v))"
  let ?rest = "comma_join (map print_member (m' # ms)) @ CHR 0x7D # r"
  have d: "drop p s = print_member (k, v) @ CHR '','' # ?rest"
    using Cons.prems(2) m by (simp add: comma_join_two)
  then have d1: "drop p s = (print_member (k, v) @ '','') @ ?rest" by simp
  have dq: "drop (?q + 1) s = ?rest" using drop_append_advance [OF d1] by simp
  then have dm: "drop (?q + 1) s = print_member (fst m', snd m') @
      concat (map ((@) '','') (map print_member ms)) @ CHR 0x7D # r"
    by (simp add: comma_join_Cons)
  have rb: "reads_back pv v" "reads_back pv (snd m')" using Cons.prems(1) m by simp_all
  obtain tok' lx' where n: "next_token \<lparr>lx_input = s, lx_pos = ?q + 1\<rparr> = Inr (tok', lx')"
    using member_printed [OF rb(2) dm] by metis
  have again: "object_loop f pv tok' (emplace k v acc) lx' =
    Inr (emplace_all (m' # ms) (emplace k v acc),
      \<lparr>lx_input = s, lx_pos = ?q + 1 + length (comma_join (map print_member (m' # ms))) + 1\<rparr>)"
    using Cons.prems f dq n by (intro Cons.IH) auto
  show ?case
    by (rule member_printed [OF rb(1) d])
      (use again Cons.prems(3) n lex_punct [OF drop_append_advance [OF d]] f m
        in \<open>simp add: comma_join_two\<close>)
qed

lemma parse_value_simps:
  assumes "depth < kMaxJsonDepth"
  shows "parse_value (Suc n) (plain_token LeftBracket t) depth lx =
      (case parse_array (\<lambda>t. parse_value n t (depth + 1)) lx of
         Inl e \<Rightarrow> Inl e | Inr (arr, lx') \<Rightarrow> Inr (JArray arr, lx'))"
    and "parse_value (Suc n) (plain_token LeftBrace t) depth lx =
      (case parse_object (\<lambda>t. parse_value n t (depth + 1)) lx of
         Inl e \<Rightarrow> Inl e | Inr (obj, lx') \<Rightarrow> Inr (JObject obj, lx'))"
  using assms by (simp_all add: parse_value.simps [of "Suc n"])

lemma parse_array_printed:
  assumes "\<forall>v \<in> set vs. reads_back pv v"
    and "drop p s = comma_join (map to_json_string vs) @ CHR '']'' # r"
  shows "parse_array pv \<lparr>lx_input = s, lx_pos = p\<rparr> =
    Inr (vs, \<lparr>lx_input = s, lx_pos = p + length (comma_join (map to_json_string vs)) + 1\<rparr>)"
proof (cases vs)
  case Nil
  with assms(2) lex_punct [of p s "CHR '']''" r] show ?thesis by (simp add: parse_array_def)
next
  case (Cons v vs')
  have d: "drop p s = to_json_string v @ concat (map ((@) '','') (map to_json_string vs')) @ CHR '']'' # r"
    using assms(2) Cons by (simp add: comma_join_Cons)
  have rb: "reads_back pv v" using assms(1) Cons by simp
  obtain tok lx1 where n: "next_token \<lparr>lx_input = s, lx_pos = p\<rparr> = Inr (tok, lx1)" "tok_type tok \<noteq> RightBracket"
    using reads_backE [OF rb d] by metis
  have "length s - p \<ge> length (comma_join (map to_json_string vs))"
    using arg_cong [OF assms(2), of length] by simp
  with comma_join_length [of "map to_json_string vs'" "to_json_string v"] Cons
  have "length vs' < loop_budget \<lparr>lx_input = s, lx_pos = p\<rparr>" by (simp add: loop_budget_def)
  from array_loop_printed [OF assms(1) [unfolded Cons] assms(2) [unfolded Cons] n(1) this, of "[]"] n Cons
  show ?thesis by (simp add: parse_array_def)
qed

lemma parse_object_printed:
  assumes "\<forall>kv \<in> set ms. reads_back pv (snd kv)"
    and "drop p s = comma_join (map print_member ms) @ CHR 0x7D # r"
  shows "parse_object pv \<lparr>lx_input = s, lx_pos = p\<rparr> =
    Inr (emplace_all ms [], \<lparr>lx_input = s, lx_pos = p + length (comma_join (map print_member ms)) + 1\<rparr>)"
proof (cases ms)
  case Nil
  with assms(2) lex_punct [of p s "CHR 0x7D" r] show ?thesis by (simp add: parse_object_def)
next
  case (Cons m ms')
  have d: "drop p s = print_member (fst m, snd m) @
      concat (map ((@) '','') (map print_member ms')) @ CHR 0x7D # r"
    using assms(2) Cons by (simp add: comma_join_Cons)
  have rb: "reads_back pv (snd m)" using assms(1) Cons by simp
  obtain tok lx1 where n: "next_token \<lparr>lx_input = s, lx_pos = p\<rparr> = Inr (tok, lx1)" "tok_type tok = String_tok"
    using member_printed [OF rb d] by metis
  have "length s - p \<ge> length (comma_join (map print_member ms))"
    using arg_cong [OF assms(2), of length] by simp
  with comma_join_length [of "map print_member ms'" "print_member m"] Cons
  have "length ms' < loop_budget \<lparr>lx_input = s, lx_pos = p\<rparr>" by (simp add: loop_budget_def)
  from object_loop_printed [OF assms(1) [unfolded Cons] assms(2) [unfolded Cons] n(1) this, of "[]"] n Cons
  show ?thesis by (simp add: parse_object_def)
qed

lemma reads_backI:
  assumes "\<And>s p r. drop p s = to_json_string v @ r \<Longrightarrow>
    (\<exists>tok lx1. next_token \<lparr>lx_input = s, lx_pos = p\<rparr> = Inr (tok, lx1) \<and> tok_type tok \<noteq> RightBracket \<and>
       pv tok lx1 = Inr (v, \<lparr>lx_input = s, lx_pos = p + length (to_json_string v)\<rparr>))"
  shows "reads_back pv v"
  using assms unfolding reads_back_def by blast

lemma parse_value_array:
  assumes rb: "\<forall>v \<in> set vs. reads_back (\<lambda>t. parse_value n t (depth + 1)) v" and lt: "depth < kMaxJsonDepth"
  shows "reads_back (\<lambda>t. parse_value (Suc n) t depth) (JArray vs)"
proof (rule reads_backI)
  fix s p r assume "drop p s = to_json_string (JArray vs) @ r"
  then have d: "drop p s = CHR ''['' # comma_join (map to_json_string vs) @ CHR '']'' # r" by simp
  then have d1: "drop (p + 1) s = comma_join (map to_json_string vs) @ CHR '']'' # r"
    by (simp add: drop_eq_Cons_conv)
  show "\<exists>tok lx1. next_token \<lparr>lx_input = s, lx_pos = p\<rparr> = Inr (tok, lx1) \<and> tok_type tok \<noteq> RightBracket \<and>
     parse_value (Suc n) tok depth lx1 =
       Inr (JArray vs, \<lparr>lx_input = s, lx_pos = p + length (to_json_string (JArray vs))\<rparr>)"
    using lex_punct [OF d, of LeftBracket] parse_array_printed [OF rb d1]
    by (simp add: parse_value_simps [OF lt])
qed

lemma parse_value_object:
  assumes rb: "\<forall>kv \<in> set ms. reads_back (\<lambda>t. parse_value n t (depth + 1)) (snd kv)" and lt: "depth < kMaxJsonDepth"
    and fits: "fits depth (JObject ms)"
  shows "reads_back (\<lambda>t. parse_value (Suc n) t depth) (JObject ms)"
proof (rule reads_backI)
  fix s p r assume "drop p s = to_json_string (JObject ms) @ r"
  then have d: "drop p s = CHR 0x7B # comma_join (map print_member ms) @ CHR 0x7D # r"
    by (simp only: to_json_string_object append_assoc append_Cons append_Nil)
  then have d1: "drop (p + 1) s = comma_join (map print_member ms) @ CHR 0x7D # r"
    by (simp add: drop_eq_Cons_conv)
  show "\<exists>tok lx1. next_token \<lparr>lx_input = s, lx_pos = p\<rparr> = Inr (tok, lx1) \<and> tok_type tok \<noteq> RightBracket \<and>
     parse_value (Suc n) tok depth lx1 =
       Inr (JObject ms, \<lparr>lx_input = s, lx_pos = p + length (to_json_string (JObject ms))\<rparr>)"
    using lex_punct [OF d, of LeftBrace] parse_object_printed [OF rb d1] emplace_all_sorted [of "[]" ms] fits
    unfolding to_json_string_object by (simp add: parse_value_simps [OF lt])
qed

lemma parse_value_printed:
  "fits depth v \<Longrightarrow> kMaxJsonDepth \<le> levels + depth \<Longrightarrow> reads_back (\<lambda>t. parse_value levels t depth) v"
proof (induction v arbitrary: levels depth)
  case (JArray vs)
  obtain n where n: "levels = Suc n" and lt: "depth < kMaxJsonDepth" using JArray.prems by (cases levels) auto
  have rb: "\<forall>v \<in> set vs. reads_back (\<lambda>t. parse_value n t (depth + 1)) v"
    using JArray n by (auto simp: list_all_iff)
  from parse_value_array [OF rb lt] show ?case by (simp only: n)
next
  case (JObject ms)
  obtain n where n: "levels = Suc n" and lt: "depth < kMaxJsonDepth" using JObject.prems by (cases levels) auto
  have rb: "\<forall>kv \<in> set ms. reads_back (\<lambda>t. parse_value n t (depth + 1)) (snd kv)"
  proof
    fix kv assume "kv \<in> set ms"
    with JObject.prems n show "reads_back (\<lambda>t. parse_value n t (depth + 1)) (snd kv)"
      by (intro JObject.IH [of kv "snd kv"]) (auto simp: list_all_iff snds.simps)
  qed
  from parse_value_object [OF rb lt JObject.prems(1)] show ?case by (simp only: n)
next
  case (JString x)
  show ?case
  proof (rule reads_backI)
    fix s p r assume "drop p s = to_json_string (JString x) @ r"
    then have d: "drop p s = json_quote x @ r" by simp
    show "\<exists>tok lx1. next_token \<lparr>lx_input = s, lx_pos = p\<rparr> = Inr (tok, lx1) \<and> tok_type tok \<noteq> RightBracket \<and>
       parse_value levels tok depth lx1 =
         Inr (JString x, \<lparr>lx_input = s, lx_pos = p + length (to_json_string (JString x))\<rparr>)"
      by (rule lex_quoted [OF d]) (simp add: parse_value.simps)
  qed
next
  case (JBool b)
  show ?case
    using lex_word [of _ _ "''true''" _ True_tok] lex_word [of _ _ "''false''" _ False_tok]
    by (intro reads_backI) (simp add: parse_value.simps literal_words_def split: if_splits)
next
  case JNull
  show ?case
    using lex_word [of _ _ "''null''" _ Null_tok]
    by (intro reads_backI) (simp add: parse_value.simps literal_words_def)
qed

lemma parse_json_printed: "fits 0 v \<Longrightarrow> parse_json (to_json_string v) = Inr v"
proof -
  assume "fits 0 v"
  then have rb: "reads_back (\<lambda>t. parse_value kMaxJsonDepth t 0) v" by (rule parse_value_printed) simp
  have d: "drop 0 (to_json_string v) = to_json_string v @ []" by simp
  have stop: "skip_ws s (length s) = length s" for s by (simp add: skip_ws.simps)
  show ?thesis
    by (rule reads_backE [OF rb d])
      (simp add: parse_json_def parse_def JsonLexer_init_def next_token_def [of "\<lparr>lx_input = _, lx_pos = length _\<rparr>"] stop Let_def)
qed

section \<open>Parsed trees fit\<close>

lemma emplace_set: "set (emplace k v ps) \<subseteq> insert (k, v) (set ps)"
  by (induction k v ps rule: emplace.induct) auto

lemma object_loop_all:
  assumes "\<And>t lx v lx'. pv t lx = Inr (v, lx') \<Longrightarrow> Q v"
  shows "object_loop fuel pv token object lx = Inr (obj, lx') \<Longrightarrow>
    sorted_keys object \<Longrightarrow> \<forall>kv \<in> set object. Q (snd kv) \<Longrightarrow> sorted_keys obj \<and> (\<forall>kv \<in> set obj. Q (snd kv))"
proof (induction fuel arbitrary: token object lx)
  case (Suc fuel)
  note step = Suc.prems(1) [unfolded object_loop.simps]
  from step obtain key where key: "string_value token lx = Inr key"
    by (auto simp: fail_def split: sum.splits if_splits)
  from step key obtain value_token lx2 v lx3 sep lx4 where
    v: "pv value_token lx2 = Inr (v, lx3)" and sep: "next_token lx3 = Inr (sep, lx4)"
    and rest: "(if tok_type sep = RightBrace then Inr (emplace key v object, lx4)
      else if tok_type sep \<noteq> Comma
      then fail (''Expected '' @ [CHR 0x27] @ '','' @ [CHR 0x27] @ '' or '' @
             [CHR 0x27, CHR 0x7D, CHR 0x27] @ '' after object value'') lx4
      else case next_token lx4 of
          Inl e \<Rightarrow> Inl e
        | Inr (token', lx5) \<Rightarrow> object_loop fuel pv token' (emplace key v object) lx5) = Inr (obj, lx')"
    by (simp add: fail_def Let_def split: sum.split_asm prod.split_asm if_split_asm del: if_split)
  have inv: "sorted_keys (emplace key v object)" "\<forall>kv \<in> set (emplace key v object). Q (snd kv)"
    using Suc.prems assms [OF v] emplace_set [of key v object] by (auto intro: sorted_emplace)
  show ?case
    using rest inv Suc.IH [OF _ inv] by (auto simp: fail_def split: if_split_asm sum.split_asm)
qed simp

lemma array_loop_all:
  assumes "\<And>t lx v lx'. pv t lx = Inr (v, lx') \<Longrightarrow> Q v"
  shows "array_loop fuel pv token array lx = Inr (arr, lx') \<Longrightarrow> \<forall>v \<in> set array. Q v \<Longrightarrow> \<forall>v \<in> set arr. Q v"
proof (induction fuel arbitrary: token array lx)
  case (Suc fuel)
  from Suc.prems(1) obtain v lx1 where v: "pv token lx = Inr (v, lx1)"
    by (auto split: sum.splits)
  with assms Suc.prems(2) have "\<forall>x \<in> set (array @ [v]). Q x" by auto
  with Suc.IH [of _ "array @ [v]"] Suc.prems(1) v show ?case
    by (auto simp: fail_def Let_def split: sum.split_asm if_split_asm)
qed simp

lemma parse_object_all:
  assumes "\<And>t lx v lx'. pv t lx = Inr (v, lx') \<Longrightarrow> Q v" and "parse_object pv lx = Inr (obj, lx')"
  shows "sorted_keys obj \<and> (\<forall>kv \<in> set obj. Q (snd kv))"
  using assms(2) object_loop_all [of pv Q, OF assms(1)]
  by (fastforce simp: parse_object_def split: sum.split_asm if_split_asm)

lemma parse_array_all:
  assumes "\<And>t lx v lx'. pv t lx = Inr (v, lx') \<Longrightarrow> Q v" and "parse_array pv lx = Inr (arr, lx')"
  shows "\<forall>v \<in> set arr. Q v"
  using assms(2) array_loop_all [of pv Q, OF assms(1)]
  by (fastforce simp: parse_array_def split: sum.split_asm if_split_asm)

lemma parse_value_fits: "parse_value levels t depth lx = Inr (v, lx') \<Longrightarrow> fits depth v"
proof (induction levels arbitrary: t depth lx v lx')
  case 0
  then show ?case
    by (auto simp: parse_value.simps [of 0] fail_def split: TokenType.split_asm if_split_asm sum.split_asm)
next
  case (Suc n)
  let ?pv = "\<lambda>t. parse_value n t (depth + 1)"
  have IH: "?pv t lx = Inr (v, lx') \<Longrightarrow> fits (depth + 1) v" for t lx v lx'
    by (rule Suc.IH)
  show ?case
    using Suc.prems parse_object_all [of ?pv "fits (depth + 1)", OF IH] parse_array_all [of ?pv "fits (depth + 1)", OF IH]
    by (auto simp: parse_value.simps [of "Suc n"] fail_def list_all_iff
        split: TokenType.split_asm if_split_asm sum.split_asm)
qed

lemma parse_fits: "parse text = Inr v \<Longrightarrow> fits 0 v"
  unfolding parse_def
  by (simp add: fail_def split: sum.split_asm prod.split_asm if_split_asm) (rule parse_value_fits)

lemma parse_json_fits: "parse_json text = Inr v \<Longrightarrow> fits 0 v"
  by (auto simp: parse_json_def dest: parse_fits split: sum.split_asm)

section \<open>Objects written in any order\<close>

lemma map_of_emplace_all:
  "sorted_keys acc \<Longrightarrow> map_of (emplace_all ms acc) = map_of (acc @ ms) \<and> sorted_keys (emplace_all ms acc)"
proof (induction ms arbitrary: acc)
  case (Cons m ms)
  obtain k v where m: "m = (k, v)" by (cases m)
  have "map_of (emplace k v acc @ ms) = map_of (acc @ (k, v) # ms)"
    using map_of_emplace [OF Cons.prems, of k v]
    by (auto simp: map_add_def fun_eq_iff split: option.splits)
  with Cons.IH [OF sorted_emplace [OF Cons.prems, of k v]] m show ?case by simp
qed simp

definition print_members :: "JsonObject \<Rightarrow> string" where
  "print_members ms = [CHR 0x7B] @ comma_join (map print_member ms) @ [CHR 0x7D]"

lemma skip_ws_end [simp]: "skip_ws s (length s) = length s"
  by (simp add: skip_ws.simps)

lemma parse_json_members:
  assumes "list_all (\<lambda>kv. fits 1 (snd kv)) ms"
  shows "parse_json (print_members ms) = Inr (JObject (emplace_all ms []))"
proof -
  let ?s = "print_members ms"
  have rb: "\<forall>kv \<in> set ms. reads_back (\<lambda>t. parse_value 63 t (0 + 1)) (snd kv)"
    using assms by (auto simp: list_all_iff kMaxJsonDepth_def intro: parse_value_printed)
  have d: "drop 0 ?s = CHR 0x7B # comma_join (map print_member ms) @ [CHR 0x7D]"
    by (simp add: print_members_def)
  then have d1: "drop (0 + 1) ?s = comma_join (map print_member ms) @ [CHR 0x7D]"
    by (simp add: drop_eq_Cons_conv)
  have len: "0 + 1 + length (comma_join (map print_member ms)) + 1 = length ?s"
    by (simp add: print_members_def)
  have k: "kMaxJsonDepth = Suc 63" by (simp add: kMaxJsonDepth_def)
  show ?thesis
    using lex_punct [OF d, of LeftBrace] parse_object_printed [OF rb d1] parse_value_simps(2) [of 0 63]
    unfolding len
    by (simp add: parse_json_def parse_def JsonLexer_init_def k
        next_token_def [of "\<lparr>lx_input = _, lx_pos = length _\<rparr>"] Let_def)
qed

section \<open>Order requests\<close>

definition plain_text :: "string \<Rightarrow> bool" where
  "plain_text x \<longleftrightarrow> list_all (\<lambda>c. quote_char c = [c]) x"

lemma quoted_plain: "plain_text x \<Longrightarrow> quoted x = json_quote x"
  by (simp add: plain_text_def quoted_def json_quote_def list_all_iff concat_plain)

definition order_members :: "OrderRequest \<Rightarrow> JsonObject" where
  "order_members o' =
     [(''ticker'', JString (req_ticker o')), (''side'', JString (side_string (req_side o'))),
      (''count'', JString (req_count o')), (''price'', JString (req_price o')),
      (''time_in_force'', JString (tif_string (req_time_in_force o'))),
      (''self_trade_prevention_type'', JString (stp_string (req_self_trade_prevention o'))),
      (''post_only'', JBool (req_post_only o')), (''client_order_id'', JString (req_client_order_id o'))]"

definition plain_request :: "OrderRequest \<Rightarrow> bool" where
  "plain_request o' \<longleftrightarrow> plain_text (req_ticker o') \<and> plain_text (req_count o') \<and>
     plain_text (req_price o') \<and> plain_text (req_client_order_id o')"

lemma plain_enum:
  "plain_text (side_string a)" "plain_text (tif_string b)" "plain_text (stp_string d)"
  by ((cases a; simp add: plain_text_def quote_char_def code_def),
      (cases b; simp add: plain_text_def quote_char_def code_def),
      (cases d; simp add: plain_text_def quote_char_def code_def))

lemma plain_keys:
  "list_all plain_text [''ticker'', ''side'', ''count'', ''price'', ''time_in_force'',
     ''self_trade_prevention_type'', ''post_only'', ''client_order_id'']"
  by (simp add: plain_text_def quote_char_def code_def)

lemma serialize_order_request_members:
  "plain_request o' \<Longrightarrow> serialize_order_request o' = print_members (order_members o')"
  using plain_keys
  by (simp add: plain_enum serialize_order_request_def print_members_def order_members_def print_member_def
      comma_join_Cons plain_request_def quoted_plain)

lemma parse_order_request:
  "plain_request o' \<Longrightarrow>
   parse_json (serialize_order_request o') = Inr (JObject (emplace_all (order_members o') []))"
  by (simp add: serialize_order_request_members parse_json_members order_members_def)

lemma order_request_fields:
  assumes "plain_request o'"
  shows "\<exists>obj. parse_json (serialize_order_request o') = Inr (JObject obj) \<and>
     get_string obj ''ticker'' = Some (req_ticker o') \<and>
     get_string obj ''side'' = Some (side_string (req_side o')) \<and>
     get_string obj ''count'' = Some (req_count o') \<and>
     get_string obj ''price'' = Some (req_price o') \<and>
     get_string obj ''time_in_force'' = Some (tif_string (req_time_in_force o')) \<and>
     get_string obj ''self_trade_prevention_type'' = Some (stp_string (req_self_trade_prevention o')) \<and>
     map_of obj ''post_only'' = Some (JBool (req_post_only o')) \<and>
     get_string obj ''client_order_id'' = Some (req_client_order_id o') \<and>
     dom (map_of obj) = fst ` set (order_members o')"
proof -
  have m: "map_of (emplace_all (order_members o') []) = map_of (order_members o')"
    using map_of_emplace_all [of "[]" "order_members o'"] by simp
  have d: "dom (map_of (order_members o')) = fst ` set (order_members o')"
    by (rule dom_map_of_conv_image_fst)
  show ?thesis
    by (intro exI [of _ "emplace_all (order_members o') []"])
      (simp add: parse_order_request [OF assms] get_string_def m d, simp add: order_members_def)
qed

section \<open>Properties\<close>

text \<open>
  C19. Printing and parsing: the trees of depth at most 64 whose objects have strictly increasing
  keys are exactly those that \<open>parse_json\<close> reads back unchanged from what \<open>to_json_string\<close>
  prints for them, whatever bytes their strings and keys hold.
\<close>

theorem json_print_parse: "fits 0 v \<longleftrightarrow> parse_json (to_json_string v) = Inr v"
  using parse_json_printed parse_json_fits by blast

text \<open>
  C20. Every tree \<open>parse_json\<close> returns, from any bytes, has containers nested at most 64 deep and
  objects with strictly increasing keys (so without duplicates), and printing it and parsing the
  result gives the same tree.
\<close>

theorem parse_json_wellformed:
  assumes "parse_json text = Inr v"
  shows "fits 0 v \<and> parse_json (to_json_string v) = Inr v"
  using parse_json_fits [OF assms] parse_json_printed by blast

definition sample_tree :: JsonValue where
  "sample_tree = JObject [(''msg'', JArray [JString [LF, DQUOTE], JNull, JArray []]), (''sid'', JBool True)]"

lemma sample_tree_fits: "fits 0 sample_tree"
  by (simp add: sample_tree_def kMaxJsonDepth_def)

theorem parse_json_wellformed_witness:
  "\<exists>text. parse_json text = Inr sample_tree \<and> fits 0 sample_tree \<and>
     parse_json (to_json_string sample_tree) = Inr sample_tree"
  using parse_json_wellformed [OF parse_json_printed [OF sample_tree_fits]] by blast

text \<open>
  Objects with members in any order and with repeated keys: the text is accepted, each key
  keeps the value of its first occurrence, and the resulting keys are sorted.
\<close>

theorem parse_json_first_key_wins:
  assumes "list_all (\<lambda>kv. fits 1 (snd kv)) ms"
  shows "\<exists>obj. parse_json (print_members ms) = Inr (JObject obj) \<and> map_of obj = map_of ms \<and> sorted_keys obj"
  using parse_json_members [OF assms] map_of_emplace_all [of "[]" ms] by simp

theorem parse_json_first_key_wins_witness:
  "\<exists>obj. parse_json (print_members [(''b'', JNull), (''a'', JBool True), (''b'', JBool False)]) = Inr (JObject obj) \<and>
     map_of obj ''b'' = Some JNull \<and> sorted_keys obj"
  using parse_json_first_key_wins [of "[(''b'', JNull), (''a'', JBool True), (''b'', JBool False)]"] by auto

text \<open>
  The order body: if ticker, count, price and client order id need no JSON escapes, the text
  of \<open>serialize_order_request\<close> is a JSON object from which every field of the request is read
  back, and which has no other keys.
\<close>

theorem order_request_readable:
  assumes "plain_request o'"
  shows "\<exists>obj. parse_json (serialize_order_request o') = Inr (JObject obj) \<and>
     get_string obj ''ticker'' = Some (req_ticker o') \<and>
     get_string obj ''side'' = Some (side_string (req_side o')) \<and>
     get_string obj ''count'' = Some (req_count o') \<and>
     get_string obj ''price'' = Some (req_price o') \<and>
     get_string obj ''time_in_force'' = Some (tif_string (req_time_in_force o')) \<and>
     get_string obj ''self_trade_prevention_type'' = Some (stp_string (req_self_trade_prevention o')) \<and>
     map_of obj ''post_only'' = Some (JBool (req_post_only o')) \<and>
     get_string obj ''client_order_id'' = Some (req_client_order_id o') \<and>
     dom (map_of obj) = fst ` set (order_members o')"
  using assms by (rule order_request_fields)

definition sample_request :: OrderRequest where
  "sample_request = \<lparr>req_ticker = ''KXBTC'', req_side = Bid, req_count = ''1.00'', req_price = ''0.5950'',
     req_time_in_force = ImmediateOrCancel, req_self_trade_prevention = TakerAtCross,
     req_client_order_id = ''bot-1-1'', req_post_only = False\<rparr>"

theorem order_request_readable_witness:
  "plain_request sample_request \<and>
   (\<exists>obj. parse_json (serialize_order_request sample_request) = Inr (JObject obj) \<and>
      get_string obj ''price'' = Some ''0.5950'')"
proof -
  have p: "plain_request sample_request"
    by (simp add: plain_request_def sample_request_def plain_text_def quote_char_def code_def)
  then show ?thesis using order_request_readable [OF p] by (auto simp: sample_request_def)
qed

end
