(* ===== verification/Bot_Safety.thy ===== *)
theory Bot_Safety
  imports Bot_Ledger Json_Roundtrip
begin

text \<open>
  Properties of the trading loop: the sequence check of the book channel, the order book it keeps, when it
  stops and how long it waits before it reconnects, and the position limit.
\<close>

section \<open>Sequence numbers\<close>

fun check_all :: "'d TradingBot \<Rightarrow> Message list \<Rightarrow> 'd TradingBot option" where
  "check_all b [] = Some b"
| "check_all b (m # ms) = (case check_sequence b m of None \<Rightarrow> None | Some b' \<Rightarrow> check_all b' ms)"

definition is_delta :: "Message \<Rightarrow> bool" where
  "is_delta m = (case msg_payload m of MsgDelta _ \<Rightarrow> True | _ \<Rightarrow> False)"

lemma check_sequence_delta:
  assumes "is_delta m" and "msg_seq m \<noteq> 0"
  shows "check_sequence b m =
    (if bot_book_sid b = Some (msg_sid m) \<and> msg_seq m = (bot_book_seq b + 1) mod 2 ^ 32
     then Some (b\<lparr>bot_book_sid := Some (msg_sid m), bot_book_seq := msg_seq m\<rparr>) else None)"
  using assms by (auto simp: check_sequence_def is_delta_def is_book_message_def is_snapshot_def split: Payload.splits)

lemma check_all_deltas:
  assumes "list_all (\<lambda>m. is_delta m \<and> msg_seq m \<noteq> 0) ms" and "bot_book_sid b = Some sid"
  shows "(check_all b ms \<noteq> None) \<longleftrightarrow>
    (\<forall>i < length ms. msg_sid (ms ! i) = sid \<and> msg_seq (ms ! i) = (bot_book_seq b + 1 + i) mod 2 ^ 32)"
proof -
  obtain N :: nat where N: "2 ^ 32 = N" by blast
  show ?thesis
    using assms unfolding N
  proof (induction ms arbitrary: b)
    case Nil
    then show ?case by simp
  next
    case (Cons m ms)
    let ?ok = "msg_sid m = sid \<and> msg_seq m = (bot_book_seq b + 1) mod N"
    let ?b1 = "b\<lparr>bot_book_sid := Some sid, bot_book_seq := msg_seq m\<rparr>"
    have step: "check_sequence b m = (if ?ok then Some ?b1 else None)"
      using Cons.prems check_sequence_delta [of m b, unfolded N] by auto
    have shift: "(msg_seq m + 1 + i) mod N = (bot_book_seq b + 1 + Suc i) mod N" if ?ok for i
      using that mod_add_left_eq [of "bot_book_seq b + 1" N "1 + i"] by (simp add: ac_simps)
    have rest: "(check_all ?b1 ms \<noteq> None) \<longleftrightarrow>
      (\<forall>i < length ms. msg_sid (ms ! i) = sid \<and> msg_seq (ms ! i) = (msg_seq m + 1 + i) mod N)"
      using Cons.IH [of ?b1] Cons.prems by simp
    show ?case
      unfolding length_Cons All_less_Suc2 nth_Cons_0 nth_Cons_Suc
      using step rest shift by (cases ?ok) auto
  qed
qed

section \<open>The book and the stop flag\<close>

text \<open>What every part of the loop keeps: the book stays reachable, and a stopped bot stays stopped.\<close>

definition evolves :: "'d TradingBot \<Rightarrow> 'd TradingBot \<Rightarrow> bool" where
  "evolves b b' \<longleftrightarrow> (book_reach (bot_book b) \<longrightarrow> book_reach (bot_book b')) \<and> (bot_stopped b \<longrightarrow> bot_stopped b')"

lemma evolves_trans: "evolves b c \<Longrightarrow> evolves c d \<Longrightarrow> evolves b d"
  by (simp add: evolves_def)

lemma evolves_same: "bot_book b' = bot_book b \<Longrightarrow> bot_stopped b' = bot_stopped b \<Longrightarrow> evolves b b'"
  by (simp add: evolves_def)

lemma order_result_book:
  "order_result b signal req result = Some b' \<Longrightarrow> bot_book b' = bot_book b \<and> bot_stopped b' = bot_stopped b"
  by (auto simp: order_result_def Let_def split: sum.splits option.splits if_splits)

lemma submit_book: "submit b signal t w = Some (b', w') \<Longrightarrow> bot_book b' = bot_book b \<and> bot_stopped b' = bot_stopped b"
  unfolding submit_def Let_def by (auto simp: io_bind_Some io_of_def dest!: order_result_book)

lemma trade_evolves: "trade D b t_rx t_decoded w = Some (b', w') \<Longrightarrow> evolves b b'"
  unfolding trade_def Let_def
  by (auto simp: io_bind_Some io_of_def evolves_def split: option.splits dest!: submit_book)

lemma on_fill_book: "on_fill b f = Some b' \<Longrightarrow> bot_book b' = bot_book b \<and> bot_stopped b' = bot_stopped b"
  by (auto simp: on_fill_def split: option.splits)

lemma apply_message_evolves: "apply_message b m = Some (eff, b') \<Longrightarrow> evolves b b'"
  by (cases "msg_payload m")
    (auto simp: apply_message_def on_book_error_def request_stop_def evolves_def
      split: prod.splits sum.splits option.splits if_splits dest: on_fill_book intro: book_snapshot book_delta)

lemma check_sequence_book: "check_sequence b m = Some b' \<Longrightarrow> bot_book b' = bot_book b \<and> bot_stopped b' = bot_stopped b"
  by (auto simp: check_sequence_def split: if_splits)

lemma is_running_evolves: "is_running b w = Some ((go, b'), w') \<Longrightarrow> evolves b b'"
  by (auto simp: is_running_def io_bind_Some request_stop_def evolves_def split: if_splits)

lemma housekeeping_evolves: "housekeeping b t w = Some ((b', t'), w') \<Longrightarrow> evolves b b'"
  unfolding housekeeping_def keep_http_warm_def print_status_def
  by (auto simp: io_bind_Some evolves_def split: if_splits)

interpretation life: bot_relation D evolves for D
  by unfold_locales
    (auto simp: evolves_def book_init dest: check_sequence_book intro: evolves_trans
      dest!: apply_message_evolves trade_evolves is_running_evolves housekeeping_evolves)

section \<open>Waiting\<close>

abbreviation sleeps :: "(call \<times> answer) list \<Rightarrow> nat" where
  "sleeps es \<equiv> length (filter (\<lambda>(c, _). c = CallSleep 1) es)"

lemma is_running_wp:
  "io_wp (is_running b) (\<lambda>(go, b') w'. (\<exists>es. trace w' = trace w @ es \<and> sleeps es = 0) \<and> (go \<longrightarrow> b' = b) \<and> (\<not> go \<longrightarrow> bot_stopped b')) w"
  unfolding is_running_def by (auto intro!: wp simp: wp request_stop_def)

lemma wait_backoff_sleeps:
  "wait_backoff n b w = Some (b', w') \<Longrightarrow>
     \<exists>es. trace w' = trace w @ es \<and> (sleeps es = n \<or> sleeps es < n \<and> bot_stopped b')"
proof (induction n arbitrary: b w)
  case 0
  then show ?case by simp
next
  case (Suc n)
  from Suc.prems obtain go b1 w1 where r: "is_running b w = Some ((go, b1), w1)"
    and rest: "(if go then io_bind (sleep_for 1) (\<lambda>_. wait_backoff n b1) else io_return b1) w1 = Some (b', w')"
    by (auto simp: io_bind_Some)
  from io_wpD [OF is_running_wp r] obtain es where es: "trace w1 = trace w @ es" "sleeps es = 0" "\<not> go \<longrightarrow> bot_stopped b1"
    by auto
  show ?case
  proof (cases go)
    case False
    with rest es show ?thesis by auto
  next
    case True
    with rest obtain w2 where s: "sleep_for 1 w1 = Some ((), w2)" and waited: "wait_backoff n b1 w2 = Some (b', w')"
      by (auto simp: io_bind_Some)
    from Suc.IH [OF waited] obtain fs where fs: "trace w' = trace w2 @ fs" "sleeps fs = n \<or> sleeps fs < n \<and> bot_stopped b'" by blast
    with es call_trace(10) [OF s] show ?thesis
      by (intro exI [of _ "es @ (CallSleep 1, AnsDone) # fs"]) auto
  qed
qed

section \<open>Orders on the wire\<close>

lemma plain_digits: "list_all is_digit ds \<Longrightarrow> plain_text ds"
  by (auto simp: plain_text_def list_all_iff is_digit_def quote_char_def code_def)

lemma plain_append [simp]: "plain_text (x @ y) \<longleftrightarrow> plain_text x \<and> plain_text y"
  by (simp add: plain_text_def)

lemma plain_decimal: "list_all is_digit ds \<Longrightarrow> list_all is_digit fs \<Longrightarrow> plain_text (ds @ CHR ''.'' # fs)"
  using plain_digits [of ds] plain_digits [of fs] by (simp add: plain_text_def quote_char_def code_def)

lemma plain_price: "0 \<le> p \<Longrightarrow> plain_text (price_to_dollars p)"
  unfolding price_to_dollars_nonneg
  by (rule plain_decimal [OF show_nat_digits]) (simp add: show_padded_digits)

lemma show_count: "0 \<le> n \<Longrightarrow> show_int n @ ''.00'' = show_nat (nat n) @ CHR ''.'' # ''00''"
  by (simp add: show_int_def)

lemma plain_count: "0 \<le> n \<Longrightarrow> plain_text (show_int n @ ''.00'')"
  unfolding show_count by (rule plain_decimal [OF show_nat_digits]) simp

lemma parse_count:
  assumes "0 \<le> n" "n \<le> INT64_MAX"
  shows "parse_fixed 0 (show_int n @ ''.00'') = Some n"
proof -
  have "list_all is_digit ''00''" by simp
  note dec = decimal_of_digits [OF show_nat_digits show_nat_not_Nil this, of "nat n"]
  have "decimal_rat (show_int n @ ''.00'') = of_int n"
  proof -
    have "digits_val ''00'' = 0" by code_simp
    then show ?thesis unfolding show_count [OF assms(1)] dec(2) using assms(1) by simp
  qed
  with dec(1) assms show ?thesis by (simp add: parse_fixed_iff show_count)
qed

section \<open>Properties\<close>

text \<open>
  C12. Lost deltas are noticed: after a snapshot of subscription \<open>sid\<close> with a sequence number, a run of
  deltas that carry sequence numbers passes the check exactly if all of them belong to that
  subscription and their numbers follow each other without a gap, modulo the width of the counter.
\<close>

theorem sequence_gap_detected:
  assumes "bot_book_sid b = Some sid" and "list_all (\<lambda>m. is_delta m \<and> msg_seq m \<noteq> 0) ms"
  shows "(check_all b ms \<noteq> None) \<longleftrightarrow>
    (\<forall>i < length ms. msg_sid (ms ! i) = sid \<and> msg_seq (ms ! i) = (bot_book_seq b + 1 + i) mod 2 ^ 32)"
  using assms(2,1) by (rule check_all_deltas)

text \<open>
  A message of another channel hides a gap: a message that is not about the book but carries the
  subscription's \<open>sid\<close> resets the expected number to its own, whatever that is, so that a delta following
  it is accepted although deltas in between were lost.
\<close>

theorem sequence_gap_masked:
  assumes "bot_book_sid b = Some (msg_sid other)" and "\<not> is_book_message other" and "msg_seq other \<noteq> 0"
    and "is_delta m" and "msg_sid m = msg_sid other" and "msg_seq m = (msg_seq other + 1) mod 2 ^ 32" and "msg_seq m \<noteq> 0"
  shows "check_all b [other, m] = Some (b\<lparr>bot_book_sid := Some (msg_sid m), bot_book_seq := msg_seq m\<rparr>)"
proof -
  have "check_sequence b other = Some (b\<lparr>bot_book_seq := msg_seq other\<rparr>)"
    using assms(1-3) by (simp add: check_sequence_def)
  moreover have "check_sequence (b\<lparr>bot_book_seq := msg_seq other\<rparr>) m =
      Some (b\<lparr>bot_book_sid := Some (msg_sid m), bot_book_seq := msg_seq m\<rparr>)"
    using check_sequence_delta [OF assms(4,7), of "b\<lparr>bot_book_seq := msg_seq other\<rparr>"] assms(1,5,6) by simp
  ultimately show ?thesis by simp
qed





section \<open>Witnesses\<close>

definition numbered :: "Payload \<Rightarrow> nat \<Rightarrow> Message" where
  "numbered p n = \<lparr>msg_type = [], msg_sid = 1, msg_seq = n, msg_payload = p\<rparr>"

definition synced_bot :: "real TradingBot" where
  "synced_bot = sample_bot\<lparr>bot_book_sid := Some 1, bot_book_seq := 5\<rparr>"

theorem sequence_gap_detected_witness:
  "check_all synced_bot [numbered (MsgDelta (sample_delta ''1'')) 6, numbered (MsgDelta (sample_delta ''1'')) 7] \<noteq> None \<and>
   check_all synced_bot [numbered (MsgDelta (sample_delta ''1'')) 6, numbered (MsgDelta (sample_delta ''1'')) 8] = None"
proof -
  let ?ms = "\<lambda>n. [numbered (MsgDelta (sample_delta ''1'')) 6, numbered (MsgDelta (sample_delta ''1'')) n]"
  have sid: "bot_book_sid synced_bot = Some 1" and seq: "bot_book_seq synced_bot = 5" by (simp_all add: synced_bot_def)
  have deltas: "list_all (\<lambda>m. is_delta m \<and> msg_seq m \<noteq> 0) (?ms n)" if "n \<noteq> 0" for n
    using that by (simp add: numbered_def is_delta_def)
  show ?thesis
    using sequence_gap_detected [OF sid deltas [of 7]] sequence_gap_detected [OF sid deltas [of 8]]
    by (simp add: numbered_def seq All_less_Suc2 del: check_all.simps not_None_eq) blast
qed

theorem sequence_gap_masked_witness:
  "\<exists>b. check_all synced_bot [numbered (MsgFill sample_fill) 7, numbered (MsgDelta (sample_delta ''1'')) 8] = Some b \<and> bot_book_seq b = 8"
proof -
  have "check_all synced_bot [numbered (MsgFill sample_fill) 7, numbered (MsgDelta (sample_delta ''1'')) 8] =
      Some (synced_bot\<lparr>bot_book_sid := Some (msg_sid (numbered (MsgDelta (sample_delta ''1'')) 8)),
        bot_book_seq := msg_seq (numbered (MsgDelta (sample_delta ''1'')) 8)\<rparr>)"
    by (rule sequence_gap_masked) (simp_all add: synced_bot_def numbered_def is_book_message_def is_delta_def)
  then show ?thesis by (simp add: numbered_def)
qed





end
