(* ===== verification/Book_Feed.thy ===== *)
theory Book_Feed
  imports Bot_Safety
begin

text \<open>
  The order book of a session as a replica of the exchange's. The specification is a replica that
  knows the levels of both sides and the last sequence number of its subscription, and takes a
  message only if it follows in order and makes sense; the bot's sequence check together with its book
  update implements it. What the replica holds is then compared with the exchange's own log of changes.
\<close>

section \<open>The specification\<close>

record replica =
  rp_sid :: "nat option"
  rp_seq :: nat
  rp_yes :: Levels
  rp_no :: Levels

definition in_order :: "Message \<Rightarrow> replica \<Rightarrow> bool" where
  "in_order m r \<longleftrightarrow>
     msg_seq m = 0 \<or> \<not> is_delta m \<or> rp_sid r = Some (msg_sid m) \<and> msg_seq m = (rp_seq r + 1) mod 2 ^ 32"

definition renumber :: "Message \<Rightarrow> replica \<Rightarrow> replica" where
  "renumber m r =
     (if msg_seq m \<noteq> 0 \<and> (is_book_message m \<or> rp_sid r = Some (msg_sid m))
      then r\<lparr>rp_sid := Some (msg_sid m), rp_seq := msg_seq m\<rparr> else r)"

text \<open>The side, the price and the size of a well-formed delta.\<close>

definition delta_entry :: "OrderBookDelta \<Rightarrow> (bool \<times> Price \<times> Quantity) option" where
  "delta_entry d =
     (case (parse_fixed 3 (price_dollars d), parse_fixed 2 (delta_fp d)) of
        (Some p, Some q) \<Rightarrow>
          if (delta_side d = ''yes'' \<or> delta_side d = ''no'') \<and> 1 \<le> p \<and> p < kMaxPrice
          then Some (delta_side d = ''yes'', p, q) else None
      | _ \<Rightarrow> None)"

fun add_entry :: "bool \<times> Price \<times> Quantity \<Rightarrow> replica \<Rightarrow> replica option" where
  "add_entry (is_yes, p, q) r =
     (let v = (if is_yes then rp_yes r p else rp_no r p) + q in
      if 0 \<le> v \<and> in_int64 v
      then Some (if is_yes then r\<lparr>rp_yes := (rp_yes r)(p := v)\<rparr> else r\<lparr>rp_no := (rp_no r)(p := v)\<rparr>)
      else None)"

definition replica_book :: "Payload \<Rightarrow> replica \<Rightarrow> replica option" where
  "replica_book p r =
     (case p of
        MsgSnapshot s \<Rightarrow>
          if list_all level_ok (yes_dollars_fp s) \<and> list_all level_ok (no_dollars_fp s)
          then Some (r\<lparr>rp_yes := levels_of (yes_dollars_fp s), rp_no := levels_of (no_dollars_fp s)\<rparr>) else None
      | MsgDelta d \<Rightarrow> Option.bind (delta_entry d) (\<lambda>e. add_entry e r)
      | _ \<Rightarrow> Some r)"

definition replica_step :: "Message \<Rightarrow> replica \<Rightarrow> replica option" where
  "replica_step m r = (if in_order m r then replica_book (msg_payload m) (renumber m r) else None)"

primrec replica_feed :: "Message list \<Rightarrow> replica \<Rightarrow> replica option" where
  "replica_feed [] r = Some r"
| "replica_feed (m # ms) r = Option.bind (replica_step m r) (replica_feed ms)"

lemma replica_feed_append: "replica_feed (ms @ ns) r = Option.bind (replica_feed ms r) (replica_feed ns)"
  by (induction ms arbitrary: r) (simp_all split: bind_split)

section \<open>The bot implements the replica\<close>

definition replica_of :: "'d TradingBot \<Rightarrow> replica" where
  "replica_of b = \<lparr>rp_sid = bot_book_sid b, rp_seq = bot_book_seq b, rp_yes = yes (bot_book b), rp_no = no (bot_book b)\<rparr>"

lemma check_sequence_refines:
  "(case check_sequence b m of
      None \<Rightarrow> \<not> in_order m (replica_of b)
    | Some b1 \<Rightarrow> in_order m (replica_of b) \<and> replica_of b1 = renumber m (replica_of b) \<and> bot_book b1 = bot_book b)"
  by (auto simp: check_sequence_def in_order_def renumber_def replica_of_def is_delta_def is_book_message_def is_snapshot_def
      split: Payload.splits)

lemma apply_delta_no_entry:
  assumes "delta_entry d = None"
  shows "\<exists>e. apply_delta m d = Some (Inl e, m)"
proof (cases "delta_side d = ''yes'' \<or> delta_side d = ''no''")
  case True
  with assms have "(\<nexists>p. parse_price (price_dollars d) = Inr p) \<or> (\<nexists>q. parse_quantity (delta_fp d) = Inr q)"
    by (auto simp: delta_entry_def parse_price_Inr parse_quantity_Inr kMaxPrice_def split: option.splits if_splits)
  with True show ?thesis by (auto simp: apply_delta_eq split: sum.split)
qed (simp add: apply_delta_eq malformed_def)

text \<open>
  What a message does to the bot's book, in terms of the replica: an accepted one is the step of the
  replica; a rejected one is no step, and at most sets one level to 0.
\<close>

definition cleared :: "replica \<Rightarrow> replica \<Rightarrow> bool" where
  "cleared r r' \<longleftrightarrow>
     rp_yes r' = rp_yes r \<and> rp_no r' = rp_no r \<or>
     (\<exists>p. rp_yes r' = (rp_yes r)(p := 0) \<and> rp_no r' = rp_no r) \<or>
     (\<exists>p. rp_yes r' = rp_yes r \<and> rp_no r' = (rp_no r)(p := 0))"

lemma apply_delta_refines:
  assumes "apply_delta (bot_book b) d = Some (res, book)"
  shows "case res of
      Inr _ \<Rightarrow> replica_book (MsgDelta d) (replica_of b) = Some (replica_of (b\<lparr>bot_book := book\<rparr>))
    | Inl _ \<Rightarrow> replica_book (MsgDelta d) (replica_of b) = None \<and> cleared (replica_of b) (replica_of (b\<lparr>bot_book := book\<rparr>))"
proof (cases "delta_entry d")
  case None
  with assms apply_delta_no_entry [OF None, of "bot_book b"] show ?thesis
    by (auto simp: replica_book_def cleared_def replica_of_def)
next
  case (Some e)
  then obtain p q where e: "e = (delta_side d = ''yes'', p, q)" and side: "delta_side d = ''yes'' \<or> delta_side d = ''no''"
    and pq: "parse_price (price_dollars d) = Inr p" "parse_quantity (delta_fp d) = Inr q"
    by (auto simp: delta_entry_def parse_price_Inr parse_quantity_Inr kMaxPrice_def split: option.splits if_splits)
  let ?raw = "delta_sum (bot_book b) d p q"
  from apply_delta_parsed [OF side pq, of "bot_book b"] assms have int: "in_int64 ?raw"
    and res: "res = (if ?raw < 0 then Inl (out_of_sync (delta_side d) p) else Inr ())"
    and lv: "yes book = (if delta_side d = ''yes'' then (yes (bot_book b))(p := max 0 ?raw) else yes (bot_book b))"
      "no book = (if delta_side d = ''yes'' then no (bot_book b) else (no (bot_book b))(p := max 0 ?raw))"
    by (auto simp: Let_def split: if_splits)
  show ?thesis
    using Some e int res lv
    by (auto simp: replica_book_def cleared_def replica_of_def delta_sum_def Let_def max_def split: if_splits)
qed

lemma replica_of_book_error: "replica_of (on_book_error b e) = replica_of b"
  by (simp add: on_book_error_def request_stop_def replica_of_def)

lemma apply_message_refines:
  assumes "apply_message b m = Some (eff, b')"
  shows "if eff = BookFailed
    then replica_book (msg_payload m) (replica_of b) = None \<and> cleared (replica_of b) (replica_of b')
    else replica_book (msg_payload m) (replica_of b) = Some (replica_of b')"
proof (cases "msg_payload m")
  case MsgNone
  with assms show ?thesis by (auto simp: apply_message_def replica_book_def)
next
  case (MsgFill f)
  with assms show ?thesis
    by (auto simp: apply_message_def replica_book_def replica_of_def on_fill_def split: option.splits)
next
  case (MsgDelta d)
  with assms obtain res book where a: "apply_delta (bot_book b) d = Some (res, book)"
    by (auto simp: apply_message_def split: option.splits)
  from apply_delta_refines [OF a] assms MsgDelta a show ?thesis
    by (cases res) (auto simp: apply_message_def replica_of_book_error)
next
  case (MsgSnapshot s)
  show ?thesis
  proof (cases "list_all level_ok (yes_dollars_fp s) \<and> list_all level_ok (no_dollars_fp s)")
    case True
    with apply_snapshot_eq [OF True, of "bot_book b"] assms MsgSnapshot show ?thesis
      by (auto simp: apply_message_def replica_book_def replica_of_def)
  next
    case False
    with apply_snapshot_bad [OF False, of "bot_book b"] assms MsgSnapshot show ?thesis
      by (auto simp: apply_message_def replica_book_def replica_of_book_error cleared_def)
  qed
qed

lemma handled_refines:
  assumes "check_sequence b m = Some b1" and "apply_message b1 m = Some (eff, b2)"
  shows "if eff = BookFailed then replica_step m (replica_of b) = None \<and> cleared (replica_of b) (replica_of b2)
    else replica_step m (replica_of b) = Some (replica_of b2)"
proof -
  have "rp_yes (renumber m r) = rp_yes r" "rp_no (renumber m r) = rp_no r" for r by (simp_all add: renumber_def)
  then have "cleared (renumber m r) r' = cleared r r'" for r r' by (simp add: cleared_def)
  with check_sequence_refines [of m b] apply_message_refines [OF assms(2)] assms(1) show ?thesis
    by (auto simp: replica_step_def split: if_splits)
qed

section \<open>Sessions\<close>

lemma trade_replica: "trade D b t_rx t_decoded w = Some (b', w') \<Longrightarrow> replica_of b' = replica_of b"
proof -
  have order: "replica_of b2 = replica_of b1" if "order_result b1 signal req result = Some b2" for b1 b2 :: "'a TradingBot" and signal req result
    using that by (auto simp: order_result_def replica_of_def Let_def split: sum.splits option.splits if_splits)
  have "replica_of b2 = replica_of b1" if "submit b1 signal t w1 = Some (b2, w2)" for b1 b2 :: "'a TradingBot" and signal t w1 w2
    using that unfolding submit_def Let_def by (auto simp: io_bind_Some io_of_def dest!: order) (simp add: replica_of_def)
  note submit = this
  assume "trade D b t_rx t_decoded w = Some (b', w')"
  then show ?thesis
    unfolding trade_def Let_def
    by (auto simp: io_bind_Some io_of_def split: option.splits dest!: submit) (simp_all add: replica_of_def)
qed

text \<open>The messages that the decoder can produce.\<close>

definition decoded :: "Message \<Rightarrow> bool" where
  "decoded m \<longleftrightarrow> (\<exists>t. decode_kalshi_message t = Inr m)"

text \<open>
  \<open>mirrors ended r r'\<close>: \<open>r'\<close> is the replica after some decoded messages, except that a rejected last
  one, which ends the session, may have set a level to 0.
\<close>

definition mirrors :: "bool \<Rightarrow> replica \<Rightarrow> replica \<Rightarrow> bool" where
  "mirrors ended r r' \<longleftrightarrow>
     (\<exists>ms q. list_all decoded ms \<and> replica_feed ms r = Some q \<and> (if ended then cleared q r' else q = r'))"

lemma cleared_refl [simp]: "cleared r r"
  by (simp add: cleared_def)

lemma mirrors_refl [simp]: "mirrors ended r r"
  unfolding mirrors_def by (rule exI [of _ "[]"]) simp

lemma mirrors_trans: "mirrors False r r1 \<Longrightarrow> mirrors ended r1 r2 \<Longrightarrow> mirrors ended r r2"
proof -
  assume "mirrors False r r1" "mirrors ended r1 r2"
  then obtain ms ns q where "list_all decoded (ms @ ns)" "replica_feed (ms @ ns) r = Some q"
    "if ended then cleared q r2 else q = r2"
    by (auto simp: mirrors_def replica_feed_append)
  then show ?thesis unfolding mirrors_def by blast
qed

lemma mirrors_ended: "mirrors False r r' \<Longrightarrow> mirrors ended r r'"
  by (rule mirrors_trans [of r r' ended r']) simp_all

lemma on_text_mirrors:
  assumes "on_text D b received t_rx bs w = Some ((fl, received', b'), w')"
  shows "mirrors (fl = Return) (replica_of b) (replica_of b')"
proof -
  have [simp]: "replica_of (b\<lparr>bot_decode := st\<rparr>) = replica_of b" for st by (simp add: replica_of_def)
  have one: "mirrors False (replica_of b) q" if "decode_kalshi_message t = Inr m" "replica_step m (replica_of b) = Some q" for t m q
    unfolding mirrors_def using that by (intro exI [of _ "[m]"]) (auto simp: decoded_def)
  from assms show ?thesis
  proof (cases rule: on_textE)
    case failed
    from handled_refines [OF failed(2,3)] have "cleared (replica_of b) (replica_of b')" by simp
    with failed(4) show ?thesis unfolding mirrors_def by (intro exI [of _ "[]"]) simp
  next
    case unchanged
    from handled_refines [OF unchanged(2,3)] one [OF unchanged(1)] unchanged(4) show ?thesis by simp
  next
    case (traded m st b2 eff b3 t w1 w2)
    then have "eff \<noteq> BookFailed" by auto
    with handled_refines [OF traded(2,3)] one [OF traded(1)] trade_replica [OF traded(5)] traded(6) show ?thesis by simp
  qed simp_all
qed

lemma is_running_replica: "is_running b w = Some ((go, b'), w') \<Longrightarrow> replica_of b' = replica_of b"
  by (auto simp: is_running_def io_bind_Some request_stop_def replica_of_def split: if_splits)

lemma housekeeping_replica: "housekeeping b t w = Some ((b', t'), w') \<Longrightarrow> replica_of b' = replica_of b"
  unfolding housekeeping_def keep_http_warm_def print_status_def
  by (auto simp: io_bind_Some replica_of_def split: if_splits)

lemma on_frame_mirrors:
  assumes "on_frame D ws b received w = Some ((ws', fl, received', b'), w')"
  shows "mirrors (fl = Return) (replica_of b) (replica_of b')"
proof -
  have "mirrors (fl = Return) (replica_of b) (replica_of b')"
    if "handle_frame D b received t_rx frame w1 = Some ((fl, received', b'), w2)" for t_rx frame w1 w2
    using that
    by (cases frame)
      (auto simp: handle_frame_def io_bind_Some split: if_splits dest: is_running_replica on_text_mirrors)
  with assms show ?thesis by (auto simp: on_frame_def io_bind_Some)
qed

lemma session_loop_mirrors:
  assumes "session_loop D ws b received_data last_status w = Some ((r, b'), w')"
  shows "mirrors True (replica_of b) (replica_of b')"
  using assms
proof (induction "length (answers w)" arbitrary: ws b received_data last_status w rule: less_induct)
  case less
  from less.prems show ?case
  proof (cases rule: session_loopE)
    case stopped
    from is_running_replica [OF stopped(1)] show ?thesis by simp
  next
    case return
    from on_frame_mirrors [OF return(2)] is_running_replica [OF return(1)] show ?thesis by simp
  next
    case (skip b1 w1 ws' received' b2 w2)
    from running_progress [OF skip(1)] shrinksD [OF shrinks_on_frame skip(2)]
    have "length (answers w2) < length (answers w)" by simp
    from less.hyps [OF this skip(3)] on_frame_mirrors [OF skip(2)] is_running_replica [OF skip(1)] show ?thesis
      by (auto intro: mirrors_trans)
  next
    case (round b1 w1 ws' received' b2 w2 b3 last_status' w3)
    from running_progress [OF round(1)] shrinksD [OF shrinks_on_frame round(2)] shrinksD [OF shrinks_housekeeping round(3)]
    have "length (answers w3) < length (answers w)" by simp
    from less.hyps [OF this round(4)] on_frame_mirrors [OF round(2)] is_running_replica [OF round(1)]
      housekeeping_replica [OF round(3)] show ?thesis
      by (auto intro: mirrors_trans)
  qed
qed

section \<open>The exchange's log\<close>

text \<open>
  The messages of a session handled one after the other, as long as none ends it; and what a message
  adds to a level.
\<close>

fun handle_all :: "'d TradingBot \<Rightarrow> Message list \<Rightarrow> 'd TradingBot option" where
  "handle_all b [] = Some b"
| "handle_all b (m # ms) =
     (case check_sequence b m of
        None \<Rightarrow> None
      | Some b1 \<Rightarrow>
         (case apply_message b1 m of
            None \<Rightarrow> None
          | Some (eff, b2) \<Rightarrow> if eff = BookFailed then None else handle_all b2 ms))"

definition level_change :: "bool \<Rightarrow> Price \<Rightarrow> Message \<Rightarrow> Quantity" where
  "level_change is_yes p m =
     (case msg_payload m of
        MsgDelta d \<Rightarrow> (case delta_entry d of Some (y, p', q) \<Rightarrow> if y = is_yes \<and> p' = p then q else 0 | None \<Rightarrow> 0)
      | _ \<Rightarrow> 0)"

lemma handle_all_feed: "handle_all b ms = Some b' \<Longrightarrow> replica_feed ms (replica_of b) = Some (replica_of b')"
proof (induction ms arbitrary: b)
  case (Cons m ms)
  then obtain b1 eff b2 where h: "check_sequence b m = Some b1" "apply_message b1 m = Some (eff, b2)" "eff \<noteq> BookFailed"
    "handle_all b2 ms = Some b'"
    by (auto split: option.splits if_splits)
  from handled_refines [OF h(1,2)] h(3) Cons.IH [OF h(4)] show ?case by simp
qed simp

lemma add_entry_levels:
  assumes "add_entry (is_yes, p0, n) r = Some q"
  shows "rp_sid q = rp_sid r" "rp_seq q = rp_seq r"
    "rp_yes q p = rp_yes r p + (if is_yes \<and> p0 = p then n else 0)"
    "rp_no q p = rp_no r p + (if \<not> is_yes \<and> p0 = p then n else 0)"
  using assms by (cases is_yes; auto simp: Let_def split: if_splits)+

lemma replica_step_delta:
  assumes "is_delta m" "msg_seq m \<noteq> 0" "replica_step m r = Some q"
  shows "rp_sid r = Some (msg_sid m)" "msg_seq m = (rp_seq r + 1) mod 2 ^ 32"
    "rp_sid q = Some (msg_sid m)" "rp_seq q = msg_seq m"
    "rp_yes q p = rp_yes r p + level_change True p m" "rp_no q p = rp_no r p + level_change False p m"
proof -
  from assms(1) obtain d where d: "msg_payload m = MsgDelta d" by (auto simp: is_delta_def split: Payload.splits)
  let ?r = "r\<lparr>rp_sid := Some (msg_sid m), rp_seq := msg_seq m\<rparr>"
  have number: "renumber m r = ?r" using assms(2) d by (simp add: renumber_def is_book_message_def)
  from assms show "rp_sid r = Some (msg_sid m)" "msg_seq m = (rp_seq r + 1) mod 2 ^ 32"
    by (auto simp: replica_step_def in_order_def split: if_splits)
  from assms(3) obtain y p0 n where e: "delta_entry d = Some (y, p0, n)" "add_entry (y, p0, n) ?r = Some q"
    by (auto simp: replica_step_def number replica_book_def d bind_eq_Some_conv simp del: add_entry.simps split: if_splits)
  from add_entry_levels(1,2) [OF e(2)] add_entry_levels(3,4) [OF e(2), of p] e(1)
  show "rp_sid q = Some (msg_sid m)" "rp_seq q = msg_seq m"
    "rp_yes q p = rp_yes r p + level_change True p m" "rp_no q p = rp_no r p + level_change False p m"
    by (simp_all add: level_change_def d)
qed

lemma replica_feed_deltas:
  assumes "list_all (\<lambda>m. is_delta m \<and> msg_seq m \<noteq> 0) ms" "replica_feed ms r = Some q"
  shows "\<forall>i < length ms. msg_seq (ms ! i) = (rp_seq r + 1 + i) mod 2 ^ 32"
    "rp_yes q p = rp_yes r p + sum_list (map (level_change True p) ms)"
    "rp_no q p = rp_no r p + sum_list (map (level_change False p) ms)"
  using assms
proof (atomize (full), induction ms arbitrary: r)
  case Nil
  then show ?case by simp
next
  case (Cons m ms)
  then obtain r1 where m: "is_delta m" "msg_seq m \<noteq> 0" "replica_step m r = Some r1" and rest: "replica_feed ms r1 = Some q"
    by (auto simp: bind_eq_Some_conv)
  obtain N :: nat where N: "2 ^ 32 = N" by blast
  note step = replica_step_delta [OF m, unfolded N]
  have shift: "(rp_seq r1 + 1 + i) mod N = (rp_seq r + 1 + Suc i) mod N" for i
    using mod_add_left_eq [of "rp_seq r + 1" N "1 + i"] by (simp add: step(2,4) ac_simps)
  from Cons.IH [of r1] Cons.prems rest step(2) step(5,6) [of p] shift show ?case
    unfolding N length_Cons All_less_Suc2 nth_Cons_0 nth_Cons_Suc by simp
qed

lemma log_prefix:
  fixes xs ys :: "'a list" and f :: "'a \<Rightarrow> nat"
  assumes "\<forall>i < length xs. f (xs ! i) = (s + i) mod N" and "\<forall>i < length ys. f (ys ! i) = (s + i) mod N"
    and "set xs \<subseteq> set ys" and "length ys < N"
  shows "xs = take (length xs) ys"
proof -
  have at: "i < length ys \<and> xs ! i = ys ! i" if i: "i < length xs" "i < N" for i
  proof -
    from i(1) assms(3) obtain j where j: "j < length ys" "xs ! i = ys ! j" by (metis in_set_conv_nth nth_mem subsetD)
    with assms(1,2) i(1) have "(s + i) mod N = (s + j) mod N" by metis
    then have "int (s + i) mod int N = int (s + j) mod int N" by (metis of_nat_mod)
    then have "int N dvd int i - int j" by (simp add: mod_eq_dvd_iff)
    with dvd_imp_le_int [of "int i - int j" "int N"] i(2) j(1) assms(4) have "i = j" by fastforce
    with j show ?thesis by simp
  qed
  have "length xs \<le> length ys"
  proof (rule ccontr)
    assume "\<not> length xs \<le> length ys"
    with at [of "length ys"] assms(4) show False by simp
  qed
  with at assms(4) show ?thesis by (intro nth_equalityI) auto
qed

section \<open>Properties\<close>


text \<open>
  C6. The book is never silently wrong. Suppose the exchange has issued a log of deltas, numbered
  without a gap from the last number the bot has seen, and the bot is given any of them: some lost,
  repeated or in another order. If it handles them all without ending the session, then it was
  given exactly the beginning of the log, and every level of its book is the old level and the sum of the changes that the log has made to it.
\<close>

theorem feed_loss_detected:
  assumes "\<forall>i < length changes. is_delta (changes ! i) \<and> msg_seq (changes ! i) \<noteq> 0 \<and>
      msg_seq (changes ! i) = (bot_book_seq b + 1 + i) mod 2 ^ 32"
    and "length changes < 2 ^ 32" and "set ms \<subseteq> set changes" and "handle_all b ms = Some b'"
  shows "ms = take (length ms) changes \<and>
    yes (bot_book b') p = yes (bot_book b) p + sum_list (map (level_change True p) (take (length ms) changes)) \<and>
    no (bot_book b') p = no (bot_book b) p + sum_list (map (level_change False p) (take (length ms) changes))"
proof -
  have "\<forall>m \<in> set changes. is_delta m \<and> msg_seq m \<noteq> 0" using assms(1) by (auto simp: in_set_conv_nth)
  with assms(3) have "list_all (\<lambda>m. is_delta m \<and> msg_seq m \<noteq> 0) ms" by (auto simp: list_all_iff)
  note fed = replica_feed_deltas [OF this handle_all_feed [OF assms(4)]]
  have "ms = take (length ms) changes"
    by (rule log_prefix [where f = msg_seq and s = "bot_book_seq b + 1" and N = "2 ^ 32"])
      (use fed(1) assms(1-3) in \<open>simp_all add: replica_of_def\<close>)
  with fed(2,3) [of p] show ?thesis by (simp add: replica_of_def)
qed

section \<open>Witnesses\<close>

text \<open>A session that connects and subscribes, and is stopped before the first frame.\<close>

definition session_world :: world where
  "session_world = \<lparr>answers =
     [AnsTime 5, AnsSign (Inr ''s''), AnsConnect (Inr ()), AnsRandom (Some (replicate 16 0)), AnsSend (Inr 1),
      AnsReceive (Inr ''HTTP/1.1 101 Switching Protocols''), AnsRandom (Some [1, 2, 3, 4]), AnsSend (Inr 1),
      AnsTime 7, AnsRunning False], trace = []\<rparr>"

lemma session_run:
  "\<exists>b' w'. run_session real_ops (\<lambda>_. ''k'') synced_bot session_world = Some ((False, b'), w') \<and> bot_book_sid b' = None"
  by (simp add: run_session_def ws_connect_def auth_headers_def current_timestamp_ms_def generate_websocket_key_def
      check_handshake_def starts_with_def send_text_def send_frame_def frame_builder_def session_loop.simps is_running_def
      synced_bot_def session_world_def sample_bot_def TradingBot_init_def io_bind_def io_return_def [abs_def] calls ask_def request_stop_def)


text \<open>A bot that holds the sample book, and two deltas that follow its last number.\<close>

definition fed_bot :: "real TradingBot" where
  "fed_bot = synced_bot\<lparr>bot_book := sample_book\<rparr>"

definition two_changes :: "Message list" where
  "two_changes = [numbered (MsgDelta (sample_delta ''2.00'')) 6, numbered (MsgDelta (sample_delta ''2.00'')) 7]"

theorem feed_loss_detected_witness:
  "\<exists>b'. handle_all fed_bot [hd two_changes] = Some b' \<and> [hd two_changes] = take 1 two_changes \<and>
     yes (bot_book b') 450 = yes (bot_book fed_bot) 450 + 200"
proof -
  have seq: "bot_book_seq fed_bot = 5" and sid: "bot_book_sid fed_bot = Some 1" and book: "bot_book fed_bot = sample_book"
    by (simp_all add: fed_bot_def synced_bot_def)
  have changes: "\<forall>i < length two_changes. is_delta (two_changes ! i) \<and> msg_seq (two_changes ! i) \<noteq> 0 \<and>
      msg_seq (two_changes ! i) = (bot_book_seq fed_bot + 1 + i) mod 2 ^ 32"
    by (simp add: two_changes_def seq numbered_def is_delta_def All_less_Suc2)
  obtain m' where d: "apply_delta sample_book (sample_delta ''2.00'') = Some (Inr (), m')"
    using sample_delta_ok(1) by (auto simp: map_option_case split: option.splits)
  then have handled: "\<exists>b'. handle_all fed_bot [hd two_changes] = Some b'"
    by (simp add: two_changes_def numbered_def check_sequence_def is_book_message_def is_snapshot_def apply_message_def seq sid book)
  have "level_change True 450 (hd two_changes) = 200"
    using sample_delta_ok(2,3) by (simp add: two_changes_def numbered_def level_change_def delta_entry_def sample_delta_def kMaxPrice_def)
  with handled feed_loss_detected [OF changes, of "[hd two_changes]" _ 450] show ?thesis
    by (auto simp: two_changes_def take_Suc_conv_app_nth)
qed

end
