(* ===== verification/Sockets.thy ===== *)
theory Sockets
  imports World
begin

text \<open>
  \<open>src/network/tcp_socket.cpp\<close>, \<open>src/network/tls_socket.cpp\<close> and \<open>include/openssl_util.hpp\<close>: how a
  connection is made of the calls of the operating system and of OpenSSL. A \<open>TcpSocket\<close> owns at most
  one descriptor, \<open>- 1\<close> is none. \<open>tls_connect\<close>, \<open>tls_send\<close> and \<open>tls_receive\<close> of \<open>World\<close> are what the
  higher components see of the operations here. The constants of the system have their values on Linux.
\<close>

section \<open>Definitions\<close>

definition kReceiveBufferSize :: nat where
  "kReceiveBufferSize = 4096"

definition kReceiveTimeoutSeconds :: int where
  "kReceiveTimeoutSeconds = 30"

definition kConnectTimeoutMs :: int where
  "kConnectTimeoutMs = 5000"

definition O_NONBLOCK :: int where
  "O_NONBLOCK = 2048"

definition EINPROGRESS :: int where
  "EINPROGRESS = 115"

definition EINTR :: int where
  "EINTR = 4"

record TcpSocket =
  tcp_fd :: int

definition TcpSocket_init :: TcpSocket where
  "TcpSocket_init = \<lparr>tcp_fd = - 1\<rparr>"

text \<open>The wait for a connection that is in progress: writable in time, and no pending error.\<close>

definition wait_connected :: "int \<Rightarrow> bool io" where
  "wait_connected fd =
     io_bind (sys_ret (Poll_out fd kConnectTimeoutMs)) (\<lambda>(polled, _).
     if polled \<noteq> 1 then io_return False
     else io_bind (sys_ret (Getsockopt_error fd)) (\<lambda>(ret, so_error).
          io_return (\<not> (ret = - 1 \<or> so_error \<noteq> 0))))"

definition connect_with_timeout :: "int \<Rightarrow> addr \<Rightarrow> bool io" where
  "connect_with_timeout fd a =
     io_bind (sys_ret (Fcntl_getfl fd)) (\<lambda>(flags, _).
     if flags = - 1 then io_return False
     else io_bind (sys_ret (Fcntl_setfl fd (or flags O_NONBLOCK))) (\<lambda>(set, _).
     if set = - 1 then io_return False
     else io_bind (sys_ret (Connect fd a)) (\<lambda>(connected, errno).
     io_bind (if connected = - 1
              then if errno \<noteq> EINPROGRESS then io_return False else wait_connected fd
              else io_return True) (\<lambda>ok.
     if \<not> ok then io_return False
     else io_bind (sys_ret (Fcntl_setfl fd flags)) (\<lambda>(restored, _). io_return (restored \<noteq> - 1))))))"

definition tcp_close :: "TcpSocket \<Rightarrow> unit io" where
  "tcp_close t = (if tcp_fd t \<noteq> - 1 then io_bind (sys_ret (Close (tcp_fd t))) (\<lambda>_. io_return ()) else io_return ())"

text \<open>The move constructor and the move assignment to another object: the new owner, and what is left of the old one.\<close>

definition tcp_move :: "TcpSocket \<Rightarrow> TcpSocket \<times> TcpSocket" where
  "tcp_move source = (\<lparr>tcp_fd = tcp_fd source\<rparr>, source\<lparr>tcp_fd := - 1\<rparr>)"

definition tcp_assign :: "TcpSocket \<Rightarrow> TcpSocket \<Rightarrow> (TcpSocket \<times> TcpSocket) io" where
  "tcp_assign this source = io_bind (tcp_close this) (\<lambda>_. io_return (tcp_move source))"

fun try_addresses :: "TcpSocket \<Rightarrow> addr list \<Rightarrow> ((string + int) \<times> TcpSocket) io" where
  "try_addresses t [] = io_return (Inl ''Failed to connect to any resolved address'', t)"
| "try_addresses t (a # as) =
     io_bind (sys_ret (Socket a)) (\<lambda>(fd, _).
     if fd = - 1 then try_addresses (t\<lparr>tcp_fd := fd\<rparr>) as
     else io_bind (connect_with_timeout fd a) (\<lambda>ok.
     if \<not> ok then io_bind (sys_ret (Close fd)) (\<lambda>_. try_addresses (t\<lparr>tcp_fd := - 1\<rparr>) as)
     else io_bind (sys_ret (Setsockopt_nodelay fd)) (\<lambda>_.
          io_bind (sys_ret (Setsockopt_rcvtimeo fd kReceiveTimeoutSeconds)) (\<lambda>_.
          io_return (Inr fd, t\<lparr>tcp_fd := fd\<rparr>)))))"

definition tcp_connect :: "string \<Rightarrow> string \<Rightarrow> TcpSocket \<Rightarrow> ((string + int) \<times> TcpSocket) io" where
  "tcp_connect host port t =
     io_bind (sys_addrs (Getaddrinfo host port)) (\<lambda>res.
     case res of
       Inl e \<Rightarrow> io_return (Inl e, t)
     | Inr as \<Rightarrow> try_addresses t as)"

text \<open>\<open>strerror\<close> is an argument of the operations that report an error of the system.\<close>

definition tcp_send_data :: "(int \<Rightarrow> string) \<Rightarrow> TcpSocket \<Rightarrow> string \<Rightarrow> (string + int) io" where
  "tcp_send_data strerror t data =
     io_bind (sys_ret (Send (tcp_fd t) data)) (\<lambda>(bytes, errno).
     io_return (if bytes = - 1 then Inl (strerror errno) else Inr bytes))"

text \<open>The first \<open>n\<close> bytes of the receive buffer; reading past its end is undefined.\<close>

definition received :: "string \<Rightarrow> int \<Rightarrow> string option" where
  "received buffer n =
     (if length buffer = kReceiveBufferSize \<and> 0 \<le> n \<and> n \<le> int kReceiveBufferSize then Some (take (nat n) buffer) else None)"

definition tcp_receive_data :: "(int \<Rightarrow> string) \<Rightarrow> TcpSocket \<Rightarrow> (string + string) io" where
  "tcp_receive_data strerror t =
     io_bind (sys_buf (Recv (tcp_fd t) kReceiveBufferSize)) (\<lambda>(bytes, errno, buffer).
     if bytes = - 1 then io_return (Inl (strerror errno))
     else if bytes = 0 then io_return (Inl ''Connection closed by server.'')
     else io_bind (io_of (received buffer bytes)) (\<lambda>data. io_return (Inr data)))"

definition ssl_error_string :: "string io" where
  "ssl_error_string = io_bind (sys_text ERR_error_string) (\<lambda>t. io_return (take 255 t))"

record TlsSocket =
  tls_tcp :: TcpSocket
  tls_ctx :: bool
  tls_ssl :: bool

definition TlsSocket_init :: "TlsSocket io" where
  "TlsSocket_init =
     io_bind (sys_ret SSL_CTX_new) (\<lambda>(ctx, _).
     io_bind (if ctx \<noteq> 0
              then io_bind (sys_ret SSL_CTX_set_default_verify_paths) (\<lambda>_.
                   io_bind (sys_ret SSL_CTX_set_verify_peer) (\<lambda>_. io_return ()))
              else io_return ()) (\<lambda>_.
     io_return \<lparr>tls_tcp = TcpSocket_init, tls_ctx = (ctx \<noteq> 0), tls_ssl = False\<rparr>))"

definition ssl_release :: "bool \<Rightarrow> unit io" where
  "ssl_release ssl =
     (if ssl then io_bind (sys_ret SSL_shutdown) (\<lambda>_. io_bind (sys_ret SSL_free) (\<lambda>_. io_return ())) else io_return ())"

text \<open>\<open>_ssl.reset\<close> takes the new object before it releases the one held.\<close>

definition ssl_reset :: "TlsSocket \<Rightarrow> TlsSocket io" where
  "ssl_reset s =
     io_bind (sys_ret SSL_new) (\<lambda>(ssl, _).
     io_bind (ssl_release (tls_ssl s)) (\<lambda>_. io_return (s\<lparr>tls_ssl := ssl \<noteq> 0\<rparr>)))"

definition tls_handshake :: "string \<Rightarrow> int \<Rightarrow> (string + unit) io" where
  "tls_handshake host fd =
     io_bind (sys_ret (SSL_set_fd fd)) (\<lambda>(bound, _).
     if bound \<noteq> 1 then io_return (Inl ''Failed to bind socket fd to SSL object'')
     else io_bind (sys_ret (SSL_set_tlsext_host_name host)) (\<lambda>_.
     io_bind (sys_ret (SSL_set1_host host)) (\<lambda>_.
     io_bind (sys_ret SSL_connect) (\<lambda>(connected, _).
     if connected \<noteq> 1
     then io_bind ssl_error_string (\<lambda>e. io_return (Inl (''TLS handshake failed: '' @ e)))
     else io_return (Inr ())))))"

definition tls_socket_connect :: "string \<Rightarrow> string \<Rightarrow> TlsSocket \<Rightarrow> ((string + unit) \<times> TlsSocket) io" where
  "tls_socket_connect host port s =
     (if \<not> tls_ctx s then io_return (Inl ''Failed to create SSL context'', s)
      else io_bind (tcp_connect host port (tls_tcp s)) (\<lambda>(tcp_result, t).
      let s1 = s\<lparr>tls_tcp := t\<rparr> in
      case tcp_result of
        Inl e \<Rightarrow> io_return (Inl e, s1)
      | Inr fd \<Rightarrow>
          io_bind (ssl_reset s1) (\<lambda>s2.
          if \<not> tls_ssl s2 then io_return (Inl ''Failed to create SSL object'', s2)
          else io_bind (tls_handshake host fd) (\<lambda>r. io_return (r, s2)))))"

text \<open>The members are destroyed in the reverse order of their declaration.\<close>

definition tls_destroy :: "TlsSocket \<Rightarrow> unit io" where
  "tls_destroy s =
     io_bind (ssl_release (tls_ssl s)) (\<lambda>_.
     io_bind (if tls_ctx s then io_bind (sys_ret SSL_CTX_free) (\<lambda>_. io_return ()) else io_return ()) (\<lambda>_.
     tcp_close (tls_tcp s)))"

text \<open>\<open>static_cast<int>\<close> of a size.\<close>

definition to_int32 :: "nat \<Rightarrow> int" where
  "to_int32 n = (int n + 2147483648) mod 4294967296 - 2147483648"

definition tls_send_data :: "string \<Rightarrow> (string + int) io" where
  "tls_send_data data =
     io_bind (sys_ret (SSL_write data (to_int32 (length data)))) (\<lambda>(bytes, _).
     if bytes \<le> 0
     then io_bind ssl_error_string (\<lambda>e. io_return (Inl (''SSL_write failed: '' @ e)))
     else io_return (Inr bytes))"

definition SSL_ERROR_WANT_READ :: int where
  "SSL_ERROR_WANT_READ = 2"

definition SSL_ERROR_SYSCALL :: int where
  "SSL_ERROR_SYSCALL = 5"

definition SSL_ERROR_ZERO_RETURN :: int where
  "SSL_ERROR_ZERO_RETURN = 6"

definition tls_receive_error :: "(int \<Rightarrow> string) \<Rightarrow> int \<Rightarrow> int \<Rightarrow> string io" where
  "tls_receive_error strerror kind errno =
     (if kind = SSL_ERROR_ZERO_RETURN then io_return ''connection closed by peer''
      else if kind = SSL_ERROR_WANT_READ then io_return ''receive timed out''
      else if kind = SSL_ERROR_SYSCALL then
        io_return
          (if errno = EINTR then ''interrupted''
           else if errno = 0 then ''connection closed by peer (no TLS close_notify)''
           else ''SSL_read failed: '' @ strerror errno)
      else io_bind ssl_error_string (\<lambda>e. io_return (''SSL_read failed: '' @ e)))"

definition tls_receive_data :: "(int \<Rightarrow> string) \<Rightarrow> (string + string) io" where
  "tls_receive_data strerror =
     io_bind (sys_buf (SSL_read kReceiveBufferSize)) (\<lambda>(bytes, _, buffer).
     if bytes \<le> 0 then
       io_bind (sys_ret (SSL_get_error bytes)) (\<lambda>(kind, errno).
       io_bind (tls_receive_error strerror kind errno) (\<lambda>e. io_return (Inl e)))
     else io_bind (io_of (received buffer bytes)) (\<lambda>data. io_return (Inr data)))"

section \<open>The calls an operation makes\<close>

text \<open>
  \<open>events m R w\<close>: if \<open>m\<close> returns from \<open>w\<close>, its result and the calls it made satisfy \<open>R\<close>. The rules
  take one call at a time off the front of a computation.
\<close>

definition events :: "'a io \<Rightarrow> ('a \<Rightarrow> (call \<times> answer) list \<Rightarrow> bool) \<Rightarrow> world \<Rightarrow> bool" where
  "events m R w = io_wp m (\<lambda>x w'. \<exists>es. trace w' = trace w @ es \<and> R x es) w"

lemma eventsD: "events m R w \<Longrightarrow> m w = Some (x, w') \<Longrightarrow> \<exists>es. trace w' = trace w @ es \<and> R x es"
  unfolding events_def by (drule io_wpD) simp_all

lemma events_return: "R x [] \<Longrightarrow> events (io_return x) R w"
  by (simp add: events_def wp)

lemma events_of: "(\<And>x. r = Some x \<Longrightarrow> R x []) \<Longrightarrow> events (io_of r) R w"
  by (simp add: events_def wp)

lemma events_bind:
  assumes "events m S w" and "\<And>x es w'. S x es \<Longrightarrow> events (f x) (\<lambda>y fs. R y (es @ fs)) w'"
  shows "events (io_bind m f) R w"
  unfolding events_def wp_bind
proof (rule io_wp_mono [OF assms(1) [unfolded events_def]], elim exE conjE)
  fix x and w' :: world and es
  assume w': "trace w' = trace w @ es" and "S x es"
  show "io_wp (f x) (\<lambda>y w''. \<exists>es. trace w'' = trace w @ es \<and> R y es) w'"
    by (rule io_wp_mono [OF assms(2) [OF \<open>S x es\<close>, unfolded events_def]]) (auto simp: w')
qed

lemma events_mono: "events m S w \<Longrightarrow> (\<And>x es. S x es \<Longrightarrow> R x es) \<Longrightarrow> events m R w"
  unfolding events_def by (erule io_wp_mono) blast

lemma events_sys:
  "(\<And>r e. R1 (r, e) [(CallSys c, AnsRet r e)]) \<Longrightarrow> events (sys_ret c) R1 w"
  "(\<And>r. R2 r [(CallSys c, AnsAddrs r)]) \<Longrightarrow> events (sys_addrs c) R2 w"
  "(\<And>r. R3 r [(CallSys c, AnsText r)]) \<Longrightarrow> events (sys_text c) R3 w"
  "(\<And>r e b. R4 (r, e, b) [(CallSys c, AnsBuf r e b)]) \<Longrightarrow> events (sys_buf c) R4 w"
  unfolding events_def by (rule wp_calls, blast)+

lemma events_call:
  "(\<And>r e w'. events (f1 (r, e)) (\<lambda>y fs. R y ((CallSys c, AnsRet r e) # fs)) w') \<Longrightarrow> events (io_bind (sys_ret c) f1) R w"
  "(\<And>r w'. events (f2 r) (\<lambda>y fs. R y ((CallSys c, AnsAddrs r) # fs)) w') \<Longrightarrow> events (io_bind (sys_addrs c) f2) R w"
  "(\<And>r w'. events (f3 r) (\<lambda>y fs. R y ((CallSys c, AnsText r) # fs)) w') \<Longrightarrow> events (io_bind (sys_text c) f3) R w"
  "(\<And>r e b w'. events (f4 (r, e, b)) (\<lambda>y fs. R y ((CallSys c, AnsBuf r e b) # fs)) w') \<Longrightarrow> events (io_bind (sys_buf c) f4) R w"
  by (rule events_bind [where S = "\<lambda>(r, e) es. es = [(CallSys c, AnsRet r e)]"], rule events_sys, auto)
     (rule events_bind [where S = "\<lambda>r es. es = [(CallSys c, AnsAddrs r)]"], rule events_sys, auto,
      rule events_bind [where S = "\<lambda>r es. es = [(CallSys c, AnsText r)]"], rule events_sys, auto,
      rule events_bind [where S = "\<lambda>(r, e, b) es. es = [(CallSys c, AnsBuf r e b)]"], rule events_sys, auto)

lemma events_if: "(b \<Longrightarrow> events m R w) \<Longrightarrow> (\<not> b \<Longrightarrow> events m' R w) \<Longrightarrow> events (if b then m else m') R w"
  by simp

section \<open>Descriptors and objects held\<close>

text \<open>What the calls of a trace leave open: descriptors, and the context and the object of OpenSSL.\<close>

datatype resource = Descriptor int | Ssl | Ctx

definition sys_effect :: "syscall \<Rightarrow> int \<Rightarrow> resource list \<Rightarrow> resource list" where
  "sys_effect c r rs =
     (case c of
        Socket a \<Rightarrow> (if r = - 1 then rs else Descriptor r # rs)
      | Close fd \<Rightarrow> remove1 (Descriptor fd) rs
      | SSL_new \<Rightarrow> (if r = 0 then rs else Ssl # rs)
      | SSL_free \<Rightarrow> remove1 Ssl rs
      | SSL_CTX_new \<Rightarrow> (if r = 0 then rs else Ctx # rs)
      | SSL_CTX_free \<Rightarrow> remove1 Ctx rs
      | _ \<Rightarrow> rs)"

primrec held :: "resource list \<Rightarrow> (call \<times> answer) list \<Rightarrow> resource list" where
  "held rs [] = rs"
| "held rs (e # es) = held (case e of (CallSys c, AnsRet r _) \<Rightarrow> sys_effect c r rs | _ \<Rightarrow> rs) es"

lemma held_append [simp]: "held rs (es @ fs) = held (held rs es) fs"
  by (induction es arbitrary: rs) simp_all

lemmas effects [simp] = sys_effect_def

text \<open>
  The calls of a connection that was made: accepted at once, or in progress, writable in time and
  without a pending error; the flags that were read are restored.
\<close>

definition was_connected :: "int \<Rightarrow> addr \<Rightarrow> (call \<times> answer) list \<Rightarrow> bool" where
  "was_connected fd a es \<longleftrightarrow>
     (\<exists>r e. es = [(CallSys (Connect fd a), AnsRet r e)] \<and> r \<noteq> - 1) \<or>
     (\<exists>e1 e2 r3. r3 \<noteq> - 1 \<and> e1 = EINPROGRESS \<and>
        es = [(CallSys (Connect fd a), AnsRet (- 1) e1), (CallSys (Poll_out fd kConnectTimeoutMs), AnsRet 1 e2),
              (CallSys (Getsockopt_error fd), AnsRet r3 0)])"

definition established :: "int \<Rightarrow> addr \<Rightarrow> (call \<times> answer) list \<Rightarrow> bool" where
  "established fd a es \<longleftrightarrow>
     (\<exists>flags e1 r2 e2 cs r3 e3. was_connected fd a cs \<and> flags \<noteq> - 1 \<and> r2 \<noteq> - 1 \<and> r3 \<noteq> - 1 \<and>
        es = (CallSys (Fcntl_getfl fd), AnsRet flags e1) # (CallSys (Fcntl_setfl fd (or flags O_NONBLOCK)), AnsRet r2 e2) #
             cs @ [(CallSys (Fcntl_setfl fd flags), AnsRet r3 e3)])"

lemma wait_connected_events:
  "events (wait_connected fd)
     (\<lambda>ok es. (\<forall>rs. held rs es = rs) \<and>
        (ok \<longrightarrow> (\<exists>e2 r3. r3 \<noteq> - 1 \<and> es = [(CallSys (Poll_out fd kConnectTimeoutMs), AnsRet 1 e2),
                                   (CallSys (Getsockopt_error fd), AnsRet r3 0)]))) w"
  unfolding wait_connected_def
  by (intro events_call; simp add: events_return; intro impI events_call; auto intro!: events_return)

lemma connect_with_timeout_events:
  "events (connect_with_timeout fd a)
     (\<lambda>ok es. (\<forall>rs. held rs es = rs) \<and> (ok \<longrightarrow> established fd a es)) w"
proof -
  let ?attempt = "\<lambda>connected errno. if connected = - 1
      then if errno \<noteq> EINPROGRESS then io_return False else wait_connected fd else io_return True"
  have attempt: "events (?attempt r e)
      (\<lambda>ok es. (\<forall>rs. held rs es = rs) \<and> (ok \<longrightarrow> was_connected fd a ((CallSys (Connect fd a), AnsRet r e) # es))) w'" for r e w'
    by (intro events_if events_return events_mono [OF wait_connected_events]) (auto simp: was_connected_def)
  show ?thesis
    unfolding connect_with_timeout_def
    apply (intro events_call, simp only: prod.case)
    apply (intro events_if events_return, simp)
    apply (intro events_call, simp only: prod.case)
    apply (intro events_if events_return, simp)
    apply (intro events_call, simp only: prod.case)
    apply (rule events_bind [OF attempt])
    apply (intro events_if events_return, simp)
    apply (intro events_call, simp only: prod.case)
    apply (rule events_return)
    apply (auto simp: established_def)
    done
qed

text \<open>
  The calls of a successful search through the addresses \<open>as\<close>: earlier attempts leave nothing
  open; the descriptor returned was made and connected for one of the addresses, is in blocking mode
  again and has its options set.
\<close>

definition opened :: "addr list \<Rightarrow> int \<Rightarrow> (call \<times> answer) list \<Rightarrow> bool" where
  "opened as fd es \<longleftrightarrow> fd \<noteq> - 1 \<and>
     (\<exists>before a e cs r1 e1 r2 e2. (\<forall>rs. held rs before = rs) \<and> (\<forall>rs. held rs cs = rs) \<and> a \<in> set as \<and> established fd a cs \<and>
        es = before @ (CallSys (Socket a), AnsRet fd e) # cs @
             [(CallSys (Setsockopt_nodelay fd), AnsRet r1 e1),
              (CallSys (Setsockopt_rcvtimeo fd kReceiveTimeoutSeconds), AnsRet r2 e2)])"

lemma opened_held: "opened as fd es \<Longrightarrow> held rs es = Descriptor fd # rs"
  by (auto simp: opened_def)

lemma opened_later:
  assumes "opened as fd es" "\<forall>rs. held rs es0 = rs" "set as \<subseteq> set bs"
  shows "opened bs fd (es0 @ es)"
proof -
  from assms(1) obtain before a e cs r1 e1 r2 e2 where
    "fd \<noteq> - 1" "\<forall>rs. held rs before = rs" "\<forall>rs. held rs cs = rs" "a \<in> set as" "established fd a cs"
    and es: "es = before @ (CallSys (Socket a), AnsRet fd e) # cs @
             [(CallSys (Setsockopt_nodelay fd), AnsRet r1 e1),
              (CallSys (Setsockopt_rcvtimeo fd kReceiveTimeoutSeconds), AnsRet r2 e2)]"
    unfolding opened_def by blast
  moreover have "\<forall>rs. held rs (es0 @ before) = rs" using calculation(2) assms(2) by simp
  moreover have "es0 @ es = (es0 @ before) @ (CallSys (Socket a), AnsRet fd e) # cs @
             [(CallSys (Setsockopt_nodelay fd), AnsRet r1 e1),
              (CallSys (Setsockopt_rcvtimeo fd kReceiveTimeoutSeconds), AnsRet r2 e2)]"
    by (simp add: es)
  ultimately show ?thesis using assms(3) unfolding opened_def by blast
qed

definition searched :: "addr list \<Rightarrow> TcpSocket \<Rightarrow> (string + int) \<times> TcpSocket \<Rightarrow> (call \<times> answer) list \<Rightarrow> bool" where
  "searched as t res es \<longleftrightarrow>
     (case res of
        (Inl _, t') \<Rightarrow> (\<forall>rs. held rs es = rs) \<and> tcp_fd t' = (if as = [] then tcp_fd t else - 1)
      | (Inr fd, t') \<Rightarrow> tcp_fd t' = fd \<and> opened as fd es)"

lemma searched_later:
  "searched as t1 res es \<Longrightarrow> tcp_fd t1 = - 1 \<Longrightarrow> \<forall>rs. held rs es0 = rs \<Longrightarrow> searched (a # as) t res (es0 @ es)"
  by (auto simp: searched_def intro: opened_later split: prod.splits sum.splits)

lemma try_addresses_events: "events (try_addresses t as) (searched as t) w"
proof (induction as arbitrary: t w)
  case Nil
  show ?case by (auto intro!: events_return simp: searched_def)
next
  case (Cons a as)
  show ?case
    unfolding try_addresses.simps
    apply (intro events_call, simp only: prod.case)
    apply (intro events_if)
     apply (rule events_mono [OF Cons.IH])
    subgoal for fd e w' res es
      using searched_later [of as "t\<lparr>tcp_fd := fd\<rparr>" res es "[(CallSys (Socket a), AnsRet fd e)]"] by simp
    apply (rule events_bind [OF connect_with_timeout_events])
    apply (intro events_if)
     apply (intro events_call)
     apply (rule events_mono [OF Cons.IH])
    subgoal for fd e w' ok es w'' r e' w3 res fs
      using searched_later [of as "t\<lparr>tcp_fd := - 1\<rparr>" res fs
          "(CallSys (Socket a), AnsRet fd e) # es @ [(CallSys (Close fd), AnsRet r e')]"] by simp
    apply (intro events_call events_return)
    apply (simp add: searched_def opened_def)
    apply (rule exI [of _ "[]"])
    apply auto
    done
qed

definition tcp_connected :: "string \<Rightarrow> string \<Rightarrow> TcpSocket \<Rightarrow> (string + int) \<times> TcpSocket \<Rightarrow> (call \<times> answer) list \<Rightarrow> bool" where
  "tcp_connected host port t res es \<longleftrightarrow>
     (case res of
        (Inl _, t') \<Rightarrow> (\<forall>rs. held rs es = rs) \<and> (tcp_fd t' = tcp_fd t \<or> tcp_fd t' = - 1)
      | (Inr fd, t') \<Rightarrow> tcp_fd t' = fd \<and>
          (\<exists>as fs. es = (CallSys (Getaddrinfo host port), AnsAddrs (Inr as)) # fs \<and> opened as fd fs))"

lemma tcp_connect_events: "events (tcp_connect host port t) (tcp_connected host port t) w"
  unfolding tcp_connect_def
proof (intro events_call)
  fix res and w' :: world
  show "events (case res of Inl e \<Rightarrow> io_return (Inl e, t) | Inr as \<Rightarrow> try_addresses t as)
      (\<lambda>y fs. tcp_connected host port t y ((CallSys (Getaddrinfo host port), AnsAddrs res) # fs)) w'"
  proof (cases res)
    case (Inl e)
    then show ?thesis by (auto intro!: events_return simp: tcp_connected_def)
  next
    case (Inr as)
    have "events (try_addresses t as)
        (\<lambda>y fs. tcp_connected host port t y ((CallSys (Getaddrinfo host port), AnsAddrs (Inr as)) # fs)) w'"
      by (rule events_mono [OF try_addresses_events])
        (auto simp: tcp_connected_def searched_def split: prod.splits sum.splits if_splits)
    with Inr show ?thesis by simp
  qed
qed

lemma ssl_error_string_events: "events ssl_error_string (\<lambda>e es. length e < 256 \<and> (\<forall>rs. held rs es = rs)) w"
  unfolding ssl_error_string_def by (intro events_call events_return) auto

lemma ssl_release_events:
  "events (ssl_release ssl) (\<lambda>_ es. \<forall>rs. held rs es = (if ssl then remove1 Ssl rs else rs)) w"
  unfolding ssl_release_def by (intro events_if events_call events_return) auto

lemma tcp_close_events:
  "events (tcp_close t) (\<lambda>_ es. \<forall>rs. held rs es = (if tcp_fd t = - 1 then rs else remove1 (Descriptor (tcp_fd t)) rs)) w"
  unfolding tcp_close_def by (intro events_if events_call events_return) auto

text \<open>The calls of a handshake that succeeded: the certificate is checked against the host name.\<close>

definition handshaken :: "string \<Rightarrow> int \<Rightarrow> (call \<times> answer) list \<Rightarrow> bool" where
  "handshaken host fd es \<longleftrightarrow>
     (\<exists>e0 r1 e1 r2 e2 e3. es = [(CallSys (SSL_set_fd fd), AnsRet 1 e0), (CallSys (SSL_set_tlsext_host_name host), AnsRet r1 e1),
        (CallSys (SSL_set1_host host), AnsRet r2 e2), (CallSys SSL_connect, AnsRet 1 e3)])"

lemma tls_handshake_events:
  "events (tls_handshake host fd) (\<lambda>r es. (\<forall>rs. held rs es = rs) \<and> (r = Inr () \<longrightarrow> handshaken host fd es)) w"
  unfolding tls_handshake_def
  apply (intro events_call, simp only: prod.case)
  apply (intro events_if events_return, simp)
  apply (intro events_call, simp only: prod.case)
  apply (intro events_if)
   apply (rule events_bind [OF ssl_error_string_events])
   apply (auto intro!: events_return simp: handshaken_def)
  done

text \<open>
  What a \<open>TlsSocket\<close> owns: the context if it has one, the object if it has one, the descriptor if it
  has one, the object on top.
\<close>

definition owns :: "TlsSocket \<Rightarrow> resource list" where
  "owns s =
     (if tls_ssl s then [Ssl] else []) @
     (if tcp_fd (tls_tcp s) = - 1 then [] else [Descriptor (tcp_fd (tls_tcp s))]) @
     (if tls_ctx s then [Ctx] else [])"

lemma TlsSocket_init_events:
  "events TlsSocket_init
     (\<lambda>s es. \<not> tls_ssl s \<and> tcp_fd (tls_tcp s) = - 1 \<and> (\<forall>rs. held rs es = owns s @ rs) \<and>
        (tls_ctx s \<longrightarrow> (\<exists>r e. (CallSys SSL_CTX_set_verify_peer, AnsRet r e) \<in> set es))) w"
  unfolding TlsSocket_init_def
  apply (intro events_call, simp only: prod.case)
  subgoal for ctx e w'
    apply (cases "ctx = 0")
     apply (auto intro!: events_return events_bind [where S = "\<lambda>_ es. es = []"] simp: owns_def TcpSocket_init_def) [1]
    apply simp
    apply (rule events_bind [where S = "\<lambda>_ es. (\<forall>rs. held rs es = rs) \<and> (\<exists>r e. (CallSys SSL_CTX_set_verify_peer, AnsRet r e) \<in> set es)"])
     apply (intro events_call events_return, auto) [1]
    apply (auto intro!: events_return simp: owns_def TcpSocket_init_def)
    done
  done

lemma tls_destroy_events: "events (tls_destroy s) (\<lambda>_ es. \<forall>rs. held (owns s @ rs) es = rs) w"
  unfolding tls_destroy_def
  apply (rule events_bind [OF ssl_release_events])
  apply (rule events_bind [where S = "\<lambda>_ es. \<forall>rs. held rs es = (if tls_ctx s then remove1 Ctx rs else rs)"])
   apply (intro events_if events_call events_return; simp)
  apply (rule events_mono [OF tcp_close_events])
  apply (simp add: owns_def)
  done

lemma ssl_reset_events:
  assumes "\<not> tls_ssl s"
  shows "events (ssl_reset s) (\<lambda>s' es. (\<forall>rs. held (owns s @ rs) es = owns s' @ rs) \<and>
      tls_tcp s' = tls_tcp s \<and> tls_ctx s' = tls_ctx s) w"
  unfolding ssl_reset_def
  using assms by (intro events_call) (auto simp: ssl_release_def owns_def intro!: events_bind [where S = "\<lambda>_ es. es = []"] events_return)

definition tls_connected :: "string \<Rightarrow> string \<Rightarrow> TlsSocket \<Rightarrow> (string + unit) \<times> TlsSocket \<Rightarrow> (call \<times> answer) list \<Rightarrow> bool" where
  "tls_connected host port s res es \<longleftrightarrow>
     (\<forall>rs. held (owns s @ rs) es = owns (snd res) @ rs) \<and>
     (fst res = Inr () \<longrightarrow> tls_ctx s \<and> tls_ssl (snd res) \<and>
        (\<exists>as cs ms hs. es = (CallSys (Getaddrinfo host port), AnsAddrs (Inr as)) # cs @ ms @ hs \<and>
           opened as (tcp_fd (tls_tcp (snd res))) cs \<and> handshaken host (tcp_fd (tls_tcp (snd res))) hs))"

lemma tls_socket_connect_events:
  assumes fresh: "\<not> tls_ssl s" "tcp_fd (tls_tcp s) = - 1"
  shows "events (tls_socket_connect host port s) (tls_connected host port s) w"
proof (cases "tls_ctx s")
  case False
  then show ?thesis
    unfolding tls_socket_connect_def by (auto intro!: events_return simp: tls_connected_def)
next
  case ctx: True
  have cont: "events (case r of
        Inl e \<Rightarrow> io_return (Inl e, s\<lparr>tls_tcp := t\<rparr>)
      | Inr fd \<Rightarrow> io_bind (ssl_reset (s\<lparr>tls_tcp := t\<rparr>)) (\<lambda>s2.
          if \<not> tls_ssl s2 then io_return (Inl ''Failed to create SSL object'', s2)
          else io_bind (tls_handshake host fd) (\<lambda>r. io_return (r, s2))))
      (\<lambda>y fs. tls_connected host port s y (es @ fs)) w'"
    if conn: "tcp_connected host port (tls_tcp s) (r, t) es" for r t es w'
  proof (cases r)
    case (Inl e)
    with conn fresh show ?thesis
      by (auto intro!: events_return simp: tls_connected_def tcp_connected_def owns_def)
  next
    case (Inr fd)
    with conn obtain as cs where t: "tcp_fd t = fd" and cs: "opened as fd cs"
      and es: "es = (CallSys (Getaddrinfo host port), AnsAddrs (Inr as)) # cs"
      by (auto simp: tcp_connected_def)
    have own: "held (owns s @ rs) es = owns (s\<lparr>tls_tcp := t\<rparr>) @ rs" for rs
      using cs fresh by (auto simp: es opened_held t owns_def) (auto simp: opened_def)
    have "events (io_bind (ssl_reset (s\<lparr>tls_tcp := t\<rparr>)) (\<lambda>s2.
          if \<not> tls_ssl s2 then io_return (Inl ''Failed to create SSL object'', s2)
          else io_bind (tls_handshake host fd) (\<lambda>r. io_return (r, s2))))
      (\<lambda>y fs. tls_connected host port s y (es @ fs)) w'"
    proof (rule events_bind [OF ssl_reset_events], use fresh in simp, intro events_if)
      fix s2 ms and w'' :: world
      assume s2: "(\<forall>rs. held (owns (s\<lparr>tls_tcp := t\<rparr>) @ rs) ms = owns s2 @ rs) \<and> tls_tcp s2 = tls_tcp (s\<lparr>tls_tcp := t\<rparr>) \<and>
        tls_ctx s2 = tls_ctx (s\<lparr>tls_tcp := t\<rparr>)"
      show "events (io_return (Inl ''Failed to create SSL object'', s2)) (\<lambda>y fs. tls_connected host port s y (es @ ms @ fs)) w''"
        using s2 own by (auto intro!: events_return simp: tls_connected_def)
      assume "\<not> \<not> tls_ssl s2"
      then show "events (io_bind (tls_handshake host fd) (\<lambda>r. io_return (r, s2))) (\<lambda>y fs. tls_connected host port s y (es @ ms @ fs)) w''"
        using s2 own t cs ctx
        by (auto intro!: events_bind [OF tls_handshake_events] events_return simp: tls_connected_def es) blast
    qed
    with Inr show ?thesis by simp
  qed
  show ?thesis
    unfolding tls_socket_connect_def
    using ctx cont by (auto intro!: events_bind [OF tcp_connect_events] simp: Let_def)
qed

lemma received_bounds: "received b n = Some d \<Longrightarrow> length d = nat n \<and> length d \<le> kReceiveBufferSize"
  by (auto simp: received_def split: if_splits)

lemma tls_receive_data_events:
  "events (tls_receive_data strerror)
     (\<lambda>r es. (\<forall>rs. held rs es = rs) \<and> (\<forall>d. r = Inr d \<longrightarrow> d \<noteq> [] \<and> length d \<le> kReceiveBufferSize)) w"
  unfolding tls_receive_data_def
  apply (intro events_call, simp only: prod.case)
  apply (intro events_if)
   apply (intro events_call, simp only: prod.case)
   apply (rule events_bind [where S = "\<lambda>_ es. \<forall>rs. held rs es = rs"])
    apply (auto simp: tls_receive_error_def intro!: events_if events_return events_bind [OF ssl_error_string_events]) [1]
   apply (auto intro!: events_return) [1]
  apply (rule events_bind [where S = "\<lambda>d es. es = [] \<and> d \<noteq> [] \<and> length d \<le> kReceiveBufferSize"])
   apply (auto intro!: events_of dest: received_bounds) [1]
  apply (auto intro!: events_return)
  done

lemma tls_send_data_events:
  "events (tls_send_data data) (\<lambda>r es. (\<forall>rs. held rs es = rs) \<and> (\<forall>n. r = Inr n \<longrightarrow> 0 < n)) w"
  unfolding tls_send_data_def
  by (intro events_call, simp only: prod.case)
     (auto intro!: events_if events_return events_bind [OF ssl_error_string_events])

lemma tcp_assign_events:
  "events (tcp_assign this source)
     (\<lambda>(this', source') es. tcp_fd this' = tcp_fd source \<and> tcp_fd source' = - 1 \<and>
        (\<forall>rs. held rs es = (if tcp_fd this = - 1 then rs else remove1 (Descriptor (tcp_fd this)) rs))) w"
  unfolding tcp_assign_def
  by (auto intro!: events_bind [OF tcp_close_events] events_return simp: tcp_move_def)

section \<open>Properties\<close>



text \<open>
  What \<open>receive_data\<close> returns is never empty and never longer than the receive buffer, so a reading
  loop that appends it makes progress at every turn; a successful send reports a positive count; and
  neither direction opens or closes a descriptor or an object of OpenSSL.
\<close>

theorem tls_transfer_contract:
  assumes "tls_receive_data strerror w = Some (r, w')" and "tls_send_data data v = Some (n, v')"
  shows "(\<exists>es. trace w' = trace w @ es \<and> (\<forall>rs. held rs es = rs)) \<and>
    (\<forall>d. r = Inr d \<longrightarrow> d \<noteq> [] \<and> length d \<le> kReceiveBufferSize) \<and>
    (\<exists>fs. trace v' = trace v @ fs \<and> (\<forall>rs. held rs fs = rs)) \<and> (\<forall>m. n = Inr m \<longrightarrow> 0 < m)"
  using eventsD [OF tls_receive_data_events assms(1)] eventsD [OF tls_send_data_events assms(2)] by blast

section \<open>Witnesses\<close>

text \<open>
  A run in which the first address refuses the connection and the second accepts it after a wait; the
  descriptors are 3 and 4, the flags 2.
\<close>

definition two_addresses :: "answer list" where
  "two_addresses =
     [AnsAddrs (Inr [''a'', ''b'']), AnsRet 3 0, AnsRet 2 0, AnsRet 0 0, AnsRet (- 1) 111, AnsRet 0 0,
      AnsRet 4 0, AnsRet 2 0, AnsRet 0 0, AnsRet (- 1) 115, AnsRet 1 0, AnsRet 0 0, AnsRet 0 0, AnsRet 0 0, AnsRet 0 0]"

lemmas run_simps = io_bind_def io_return_def [abs_def] io_of_def sys_ret_def sys_addrs_def sys_text_def sys_buf_def ask_def

lemma two_addresses_run:
  "\<exists>w'. tcp_connect ''h'' ''443'' TcpSocket_init \<lparr>answers = two_addresses @ as, trace = tr\<rparr> =
     Some ((Inr 4, \<lparr>tcp_fd = 4\<rparr>), w') \<and> answers w' = as"
  by (simp add: tcp_connect_def two_addresses_def run_simps connect_with_timeout_def wait_connected_def
      EINPROGRESS_def TcpSocket_init_def)



theorem tls_transfer_contract_witness:
  "\<exists>w'. tls_receive_data (\<lambda>_. []) \<lparr>answers = [AnsBuf 2 0 (replicate kReceiveBufferSize CHR ''x'')], trace = []\<rparr> =
     Some (Inr ''xx'', w') \<and> length ''xx'' \<le> kReceiveBufferSize"
proof -
  have r: "tls_receive_data (\<lambda>_. []) \<lparr>answers = [AnsBuf 2 0 (replicate kReceiveBufferSize CHR ''x'')], trace = []\<rparr> =
     Some (Inr ''xx'', \<lparr>answers = [], trace = [(CallSys (SSL_read kReceiveBufferSize), AnsBuf 2 0 (replicate kReceiveBufferSize CHR ''x''))]\<rparr>)"
    by (simp add: tls_receive_data_def run_simps received_def kReceiveBufferSize_def numeral_eq_Suc)
  have s: "tls_send_data ''q'' \<lparr>answers = [AnsRet 1 0], trace = []\<rparr> =
     Some (Inr 1, \<lparr>answers = [], trace = [(CallSys (SSL_write ''q'' (to_int32 1)), AnsRet 1 0)]\<rparr>)"
    by (simp add: tls_send_data_def run_simps)
  from tls_transfer_contract [OF r s] r show ?thesis by blast
qed

end
