(* ===== verification/Key_Signer.thy ===== *)
theory Key_Signer
  imports Sockets Kalshi_Auth
begin

text \<open>
  The class \<open>Signer\<close> of \<open>include/kalshi_auth.hpp\<close> and \<open>src/protocol/kalshi_auth.cpp\<close> in terms of the calls
  of OpenSSL: loading the private key, and one RSA-PSS signature. The base64 encoder
  (\<open>EVP_EncodeBlock\<close>) is an argument. \<open>World\<close> gives the other components the signature as the one
  call \<open>sign\<close>.
\<close>

section \<open>Definitions\<close>

record Signer =
  signer_key_id :: string

definition from_credentials :: "Credentials \<Rightarrow> (string + Signer) io" where
  "from_credentials credentials =
     io_bind (sys_ret (BIO_new_file (private_key_path credentials))) (\<lambda>(bio, _).
     if bio = 0 then io_return (Inl (''Failed to open private key file: '' @ private_key_path credentials))
     else io_bind (sys_ret PEM_read_bio_PrivateKey) (\<lambda>(key, _).
     if key = 0
     then io_bind ssl_error_string (\<lambda>e. io_return (Inl (''Failed to parse private key: '' @ e)))
     else io_return (Inr \<lparr>signer_key_id = key_id credentials\<rparr>)))"

text \<open>The size of the output buffer of \<open>base64_encode\<close>, and the characters that the encoder wrote.\<close>

definition base64_size :: "nat \<Rightarrow> nat" where
  "base64_size n = 4 * ((n + 2) div 3) + 1"

definition base64_encode :: "(bytes \<Rightarrow> string) \<Rightarrow> bytes \<Rightarrow> string option" where
  "base64_encode encode_block data =
     (let encoded = encode_block data in
      if length encoded + 1 \<le> base64_size (length data) then Some encoded else None)"

definition sign_failed :: "string \<Rightarrow> (string + string) io" where
  "sign_failed what = io_bind ssl_error_string (\<lambda>e. io_return (Inl (what @ e)))"

text \<open>The vector has the length first reported; it is resized to the length the second call reports.\<close>

definition resize :: "nat \<Rightarrow> bytes \<Rightarrow> bytes" where
  "resize n v = take n v @ replicate (n - length v) 0"

definition sign_final :: "(bytes \<Rightarrow> string) \<Rightarrow> (string + string) io" where
  "sign_final encode_block =
     io_bind (sys_ret EVP_DigestSignFinal_length) (\<lambda>(ok, sig_len).
     if ok \<noteq> 1 then sign_failed ''Failed to determine signature length: ''
     else io_bind (sys_buf (EVP_DigestSignFinal (nat sig_len))) (\<lambda>(ok, sig_len', signature).
     if ok \<noteq> 1 then sign_failed ''EVP_DigestSignFinal failed: ''
     else if length signature \<noteq> nat sig_len then io_of None
     else io_bind (io_of (base64_encode encode_block (resize (nat sig_len') (bytes_of signature)))) (\<lambda>s.
          io_return (Inr s))))"

definition signer_sign :: "(bytes \<Rightarrow> string) \<Rightarrow> string \<Rightarrow> (string + string) io" where
  "signer_sign encode_block message =
     io_bind (sys_ret EVP_MD_CTX_new) (\<lambda>(mdctx, _).
     if mdctx = 0 then io_return (Inl ''Failed to create digest context'')
     else io_bind (sys_ret EVP_DigestSignInit) (\<lambda>(ok, _).
     if ok \<noteq> 1 then sign_failed ''EVP_DigestSignInit failed: ''
     else io_bind (sys_ret EVP_PKEY_CTX_set_rsa_padding) (\<lambda>(ok, _).
     if ok \<le> 0 then sign_failed ''Failed to set RSA-PSS padding: ''
     else io_bind (sys_ret EVP_PKEY_CTX_set_rsa_pss_saltlen) (\<lambda>(ok, _).
     if ok \<le> 0 then sign_failed ''Failed to set RSA-PSS salt length: ''
     else io_bind (sys_ret (EVP_DigestSignUpdate message)) (\<lambda>(ok, _).
     if ok \<noteq> 1 then sign_failed ''EVP_DigestSignUpdate failed: ''
     else sign_final encode_block)))))"

section \<open>Lemmas\<close>

text \<open>
  The calls of a signature that succeeded: the padding and the salt length are set before the
  message, and only the message, is hashed; the result is the encoding of the signature that the
  last call returned.
\<close>

definition signed :: "(bytes \<Rightarrow> string) \<Rightarrow> string \<Rightarrow> string \<Rightarrow> (call \<times> answer) list \<Rightarrow> bool" where
  "signed encode_block message s es \<longleftrightarrow>
     (\<exists>c e0 e1 p e2 l e3 e4 n m sig.
        c \<noteq> 0 \<and> 0 < p \<and> 0 < l \<and> length sig = nat n \<and>
        es = [(CallSys EVP_MD_CTX_new, AnsRet c e0), (CallSys EVP_DigestSignInit, AnsRet 1 e1),
              (CallSys EVP_PKEY_CTX_set_rsa_padding, AnsRet p e2), (CallSys EVP_PKEY_CTX_set_rsa_pss_saltlen, AnsRet l e3),
              (CallSys (EVP_DigestSignUpdate message), AnsRet 1 e4), (CallSys EVP_DigestSignFinal_length, AnsRet 1 n),
              (CallSys (EVP_DigestSignFinal (nat n)), AnsBuf 1 m sig)] \<and>
        s = encode_block (resize (nat m) (bytes_of sig)))"

lemma sign_failed_events: "events (sign_failed what) (\<lambda>r _. \<exists>e. r = Inl e) w"
  unfolding sign_failed_def by (auto intro!: events_bind [OF ssl_error_string_events] events_return)

lemma sign_final_events:
  "events (sign_final encode_block)
     (\<lambda>r es. \<forall>s. r = Inr s \<longrightarrow> (\<exists>n m sig. length sig = nat n \<and> s = encode_block (resize (nat m) (bytes_of sig)) \<and>
        es = [(CallSys EVP_DigestSignFinal_length, AnsRet 1 n), (CallSys (EVP_DigestSignFinal (nat n)), AnsBuf 1 m sig)])) w"
  unfolding sign_final_def
  apply (intro events_call, simp only: prod.case)
  apply (rule events_if, rule events_mono [OF sign_failed_events], force)
  apply (intro events_call, simp only: prod.case)
  apply (rule events_if, rule events_mono [OF sign_failed_events], force)
  apply (rule events_if)
   apply (rule events_of, simp)
  apply (rule events_bind [where S = "\<lambda>s es. es = [] \<and> base64_encode encode_block _ = Some s"])
   apply (rule events_of, simp)
  apply (auto intro!: events_return simp: base64_encode_def Let_def split: if_splits)
  done

lemma signer_sign_events:
  "events (signer_sign encode_block message) (\<lambda>r es. \<forall>s. r = Inr s \<longrightarrow> signed encode_block message s es) w"
  unfolding signer_sign_def
  apply (intro events_call, simp only: prod.case)
  apply (intro events_if events_return, simp)
  apply (intro events_call, simp only: prod.case)
  apply (rule events_if, rule events_mono [OF sign_failed_events], force)
  apply (intro events_call, simp only: prod.case)
  apply (rule events_if, rule events_mono [OF sign_failed_events], force)
  apply (intro events_call, simp only: prod.case)
  apply (rule events_if, rule events_mono [OF sign_failed_events], force)
  apply (intro events_call, simp only: prod.case)
  apply (rule events_if, rule events_mono [OF sign_failed_events], force)
  apply (rule events_mono [OF sign_final_events])
  apply (auto simp: signed_def)
  done

end
