(* ===== verification/Entry_Point.thy ===== *)
theory Entry_Point
  imports Bot_Ledger Key_Signer Json_Roundtrip
begin

text \<open>
  \<open>main.cpp\<close>: the arguments of the program, the administrative command that moves collateral between
  exchange shards, and the start of the bot. The environment variables are a map, the arguments a
  list that begins with the program's name; what is printed is left out.
\<close>

section \<open>Definitions\<close>

definition kBalancePath :: string where
  "kBalancePath = ''/trade-api/v2/portfolio/balance''"

definition kShardTransferPath :: string where
  "kShardTransferPath = ''/trade-api/v2/portfolio/intra_exchange_instance_transfer''"

definition kDefaultTicker :: string where
  "kDefaultTicker = ''KXPRESNOMD-28-LC''"

text \<open>Multiplication of \<open>int64_t\<close>: no value if it overflows.\<close>

definition mul64 :: "int \<Rightarrow> int \<Rightarrow> int option" where
  "mul64 a b = (if in_int64 (a * b) then Some (a * b) else None)"

definition print_balance :: "HttpClient \<Rightarrow> HttpClient io" where
  "print_balance http = io_bind (request_json ''GET'' kBalancePath [] http) (\<lambda>(_, http'). io_return http')"

definition transfer_body :: "int \<Rightarrow> int \<Rightarrow> string" where
  "transfer_body amount shard =
     [CHR 0x7B] @ quoted ''source'' @ '':'' @ quoted ''event_contract'' @ '','' @
     quoted ''destination'' @ '':'' @ quoted ''event_contract'' @ '','' @
     quoted ''amount'' @ '':'' @ show_int amount @ '','' @
     quoted ''source_exchange_shard'' @ '':0,'' @
     quoted ''destination_exchange_shard'' @ '':'' @ show_int shard @ [CHR 0x7D]"

definition fund_shard :: "string \<Rightarrow> int \<Rightarrow> int \<Rightarrow> int io" where
  "fund_shard kid shard dollars =
     io_bind (print_balance (HttpClient_init kKalshiHost (Some kid))) (\<lambda>http1.
     io_bind (io_of (mul64 dollars 10000)) (\<lambda>amount.
     io_bind (request_json ''POST'' kShardTransferPath (transfer_body amount shard) http1) (\<lambda>(response, http2).
     case response of
       Inl _ \<Rightarrow> io_return 1
     | Inr _ \<Rightarrow> io_bind (sleep_for 2) (\<lambda>_. io_bind (print_balance http2) (\<lambda>_. io_return 0)))))"

text \<open>
  \<open>std::stoi\<close> and \<open>std::stoll\<close>: blanks, a sign and decimal digits at the front of the text; they
  throw, here \<open>None\<close>, if there is no digit or the value does not fit.
\<close>

definition is_cspace :: "char \<Rightarrow> bool" where
  "is_cspace c \<longleftrightarrow> c = CHR '' '' \<or> 9 \<le> code c \<and> code c \<le> 13"

definition stoll_in :: "int \<Rightarrow> int \<Rightarrow> string \<Rightarrow> int option" where
  "stoll_in lo hi s =
     (let t = dropWhile is_cspace s;
          negative = (t \<noteq> [] \<and> hd t = CHR ''-'');
          digits = takeWhile is_digit (if t \<noteq> [] \<and> (hd t = CHR ''-'' \<or> hd t = CHR ''+'') then tl t else t);
          v = (if negative then - int (digits_val digits) else int (digits_val digits)) in
      if digits = [] then None else if lo \<le> v \<and> v \<le> hi then Some v else None)"

definition stoi :: "string \<Rightarrow> int option" where
  "stoi s = stoll_in (- 2147483648) 2147483647 s"

definition stoll :: "string \<Rightarrow> int option" where
  "stoll s = stoll_in INT64_MIN INT64_MAX s"

text \<open>The end of the program: an exit code, or an exception that nothing catches.\<close>

datatype program_end = Exit int | Terminate

definition run_fund_shard :: "string \<Rightarrow> string \<Rightarrow> string \<Rightarrow> program_end io" where
  "run_fund_shard kid shard dollars =
     (case (stoi shard, stoll dollars) of
        (Some s, Some d) \<Rightarrow> io_bind (fund_shard kid s d) (\<lambda>code. io_return (Exit code))
      | _ \<Rightarrow> io_return Terminate)"

definition run_bot :: "'d double_ops \<Rightarrow> (bytes \<Rightarrow> string) \<Rightarrow> string \<Rightarrow> string list \<Rightarrow> program_end io" where
  "run_bot D encode_block kid argv =
     (let ticker = (if length argv > 1 then argv ! 1 else kDefaultTicker) in
      io_bind (run D encode_block (TradingBot_init ticker kid StrategyConfig_default)) (\<lambda>_. io_return (Exit 0)))"

text \<open>
  The handlers of the signals: \<open>handle_signal\<close> for SIGINT and SIGTERM with no flags, so that a system call
  that is interrupted is not restarted, and SIGPIPE is ignored.
\<close>

definition SIGINT :: int where
  "SIGINT = 2"

definition SIGPIPE :: int where
  "SIGPIPE = 13"

definition SIGTERM :: int where
  "SIGTERM = 15"

definition handle_signal :: "'d TradingBot \<Rightarrow> 'd TradingBot" where
  "handle_signal b = request_stop b"

definition install_signal_handlers :: "unit io" where
  "install_signal_handlers =
     io_bind (sys_ret (Sigaction SIGINT 0)) (\<lambda>_.
     io_bind (sys_ret (Sigaction SIGTERM 0)) (\<lambda>_.
     io_bind (sys_ret (Signal_ignore SIGPIPE)) (\<lambda>_. io_return ())))"

definition run_command :: "'d double_ops \<Rightarrow> (bytes \<Rightarrow> string) \<Rightarrow> string \<Rightarrow> string list \<Rightarrow> program_end io" where
  "run_command D encode_block kid argv =
     (if length argv = 4 \<and> argv ! 1 = ''--fund-shard''
      then run_fund_shard kid (argv ! 2) (argv ! 3)
      else run_bot D encode_block kid argv)"

definition main_program ::
    "'d double_ops \<Rightarrow> (bytes \<Rightarrow> string) \<Rightarrow> (string \<rightharpoonup> string) \<Rightarrow> string list \<Rightarrow> program_end io" where
  "main_program D encode_block getenv argv =
     io_bind install_signal_handlers (\<lambda>_.
     case load_credentials_from_env getenv of
        Inl _ \<Rightarrow> io_return (Exit 1)
      | Inr credentials \<Rightarrow>
          io_bind (from_credentials credentials) (\<lambda>signer.
          case signer of
            Inl _ \<Rightarrow> io_return (Exit 1)
          | Inr s \<Rightarrow> run_command D encode_block (signer_key_id s) argv))"

section \<open>Lemmas\<close>

text \<open>The sends of one request: all of the same text, at most one of them accepted, and one if it is answered.\<close>

definition accepted_sends :: "(string \<times> (string + nat)) list \<Rightarrow> (string \<times> (string + nat)) list" where
  "accepted_sends = filter (\<lambda>s. \<not> isl (snd s))"

definition one_request :: "(string \<Rightarrow> bool) \<Rightarrow> bool \<Rightarrow> (call \<times> answer) list \<Rightarrow> bool" where
  "one_request P answered es \<longleftrightarrow>
     list_all (\<lambda>s. P (fst s)) (sends es) \<and> length (accepted_sends (sends es)) \<le> 1 \<and>
     (answered \<longrightarrow> length (accepted_sends (sends es)) = 1)"

lemma request_json_events:
  "events (request_json method path body c)
     (\<lambda>(r, c') es. one_request (\<lambda>d. \<exists>host headers. d = request_text method path host headers body) (\<not> isl r) es) w"
  unfolding request_json_def
proof (rule events_bind [where S = "\<lambda>(r, c') es. one_request (\<lambda>d. \<exists>host headers. d = request_text method path host headers body) (\<not> isl r) es"])
  show "events (request method path body c)
     (\<lambda>(r, c') es. one_request (\<lambda>d. \<exists>host headers. d = request_text method path host headers body) (\<not> isl r) es) w"
    unfolding events_def
    by (rule io_wp_mono [OF request_wp])
      (fastforce simp: one_request_def policy_def accepted_sends_def)
qed (auto intro!: events_return simp: one_request_def split: sum.splits)

text \<open>The transfer requests handed to the network.\<close>

definition transfers :: "(call \<times> answer) list \<Rightarrow> (string \<times> (string + nat)) list" where
  "transfers es = filter (\<lambda>s. starts_with (fst s) ''POST '') (sends es)"

lemma transfers_simps [simp]:
  "transfers [] = []" "transfers (es @ fs) = transfers es @ transfers fs" "transfers ((CallSleep n, a) # es) = transfers es"
  by (simp_all add: transfers_def sends_append)

lemma request_text_method:
  "starts_with (request_text ''POST'' p h a b) ''POST ''" "\<not> starts_with (request_text ''GET'' p h a b) ''POST ''"
  by (simp_all add: request_text_def starts_with_def Let_def)

lemma print_balance_events: "events (print_balance c) (\<lambda>_ es. transfers es = []) w"
proof -
  have none: "transfers es = []"
    if "one_request (\<lambda>d. \<exists>host headers. d = request_text ''GET'' kBalancePath host headers []) b es" for es b
    using that by (auto simp: transfers_def one_request_def filter_empty_conv list_all_iff request_text_method) 
  show ?thesis
    unfolding print_balance_def
    by (rule events_bind [OF request_json_events]) (auto intro!: events_return dest: none)
qed

lemma transfer_request_events:
  "events (request_json ''POST'' kShardTransferPath body c)
     (\<lambda>(r, c') es. list_all (\<lambda>s. \<exists>host headers. fst s = request_text ''POST'' kShardTransferPath host headers body) (transfers es) \<and>
        length (accepted_sends (transfers es)) \<le> 1 \<and> (\<not> isl r \<longrightarrow> length (accepted_sends (transfers es)) = 1)) w"
proof (rule events_mono [OF request_json_events], clarsimp split: prod.splits)
  fix r es
  assume one: "one_request (\<lambda>d. \<exists>host headers. d = request_text ''POST'' kShardTransferPath host headers body) (\<not> isl r) es"
  then have "transfers es = sends es"
    by (auto simp: transfers_def one_request_def filter_id_conv list_all_iff request_text_method)
  with one show "list_all (\<lambda>s. \<exists>host headers. fst s = request_text ''POST'' kShardTransferPath host headers body) (transfers es) \<and>
      length (accepted_sends (transfers es)) \<le> Suc 0 \<and> (\<not> isl r \<longrightarrow> length (accepted_sends (transfers es)) = Suc 0)"
    by (simp add: one_request_def)
qed

lemma events_sleep: "(\<And>w'. events (f ()) (\<lambda>y fs. R y ((CallSleep n, AnsDone) # fs)) w') \<Longrightarrow> events (io_bind (sleep_for n) f) R w"
  by (rule events_bind [where S = "\<lambda>_ es. es = [(CallSleep n, AnsDone)]"]) (auto simp: events_def intro!: wp_calls)

definition transferred :: "int \<Rightarrow> int \<Rightarrow> int \<Rightarrow> (call \<times> answer) list \<Rightarrow> bool" where
  "transferred shard dollars c es \<longleftrightarrow>
     in_int64 (dollars * 10000) \<and> c \<in> {0, 1} \<and>
     list_all (\<lambda>s. \<exists>host headers. fst s = request_text ''POST'' kShardTransferPath host headers (transfer_body (dollars * 10000) shard))
       (transfers es) \<and>
     length (accepted_sends (transfers es)) \<le> 1 \<and> (c = 0 \<longrightarrow> length (accepted_sends (transfers es)) = 1)"

lemma fund_shard_events: "events (fund_shard kid shard dollars) (transferred shard dollars) w"
  unfolding fund_shard_def
proof (rule events_bind [OF print_balance_events],
    rule events_bind [where S = "\<lambda>a es. es = [] \<and> in_int64 (dollars * 10000) \<and> a = dollars * 10000"])
  show "events (io_of (mul64 dollars 10000)) (\<lambda>a es. es = [] \<and> in_int64 (dollars * 10000) \<and> a = dollars * 10000) w'" for w'
    by (rule events_of) (auto simp: mul64_def split: if_splits)
next
  fix http1 amount and es1 es2 :: "(call \<times> answer) list" and w1 :: world
  assume "transfers es1 = []" "es2 = [] \<and> in_int64 (dollars * 10000) \<and> amount = dollars * 10000"
  then show "events (io_bind (request_json ''POST'' kShardTransferPath (transfer_body amount shard) http1) (\<lambda>(response, http2).
       case response of Inl _ \<Rightarrow> io_return 1
       | Inr _ \<Rightarrow> io_bind (sleep_for 2) (\<lambda>_. io_bind (print_balance http2) (\<lambda>_. io_return 0))))
     (\<lambda>y fs. transferred shard dollars y (es1 @ es2 @ fs)) w1"
    apply (intro events_bind [OF transfer_request_events])
    subgoal for res es w2
      by (cases "fst res"; cases res)
        (auto intro!: events_return events_sleep events_bind [OF print_balance_events]
          simp: transferred_def)
    done
qed

lemma events_shrinks: "shrinks m \<Longrightarrow> events m (\<lambda>_ _. True) w"
  unfolding events_def by (rule io_wpI) (auto simp: consumes_def dest!: shrinks_consumes)

lemma shrinks_run_command [shrink]: "shrinks (run_command D encode_block kid argv)"
  unfolding run_command_def run_fund_shard_def run_bot_def fund_shard_def print_balance_def Let_def
  by (auto intro!: shrink split: option.split)

text \<open>The calls that load the key of the given credentials, with success.\<close>

definition loads_key :: "Credentials \<Rightarrow> (call \<times> answer) list \<Rightarrow> bool" where
  "loads_key c es \<longleftrightarrow>
     (\<exists>bio e1 key e2. bio \<noteq> 0 \<and> key \<noteq> 0 \<and>
        es = [(CallSys (BIO_new_file (private_key_path c)), AnsRet bio e1), (CallSys PEM_read_bio_PrivateKey, AnsRet key e2)])"

lemma from_credentials_events:
  "events (from_credentials c)
     (\<lambda>r es. case r of
        Inl _ \<Rightarrow> list_all quiet es
      | Inr s \<Rightarrow> signer_key_id s = key_id c \<and> loads_key c es) w"
proof -
  have quiet [simp]: "quiet (CallSys x, a)" for x a by (simp add: quiet_def is_send_def is_connect_def)
  show ?thesis
    unfolding from_credentials_def ssl_error_string_def
    apply (intro events_call, simp only: prod.case)
    apply (intro events_if events_return, simp)
    apply (intro events_call, simp only: prod.case)
    apply (intro events_if)
     apply (rule events_bind [where S = "\<lambda>_ es. list_all quiet es"], intro events_call events_return, simp)
     apply (rule events_return, simp)
    apply (rule events_return, simp add: loads_key_def)
    done
qed

text \<open>What the program has done when it ends with \<open>r\<close>, after the handlers were installed.\<close>

definition started :: "(string \<rightharpoonup> string) \<Rightarrow> program_end \<Rightarrow> (call \<times> answer) list \<Rightarrow> bool" where
  "started getenv r es \<longleftrightarrow>
     r = Exit 1 \<and> list_all quiet es \<or>
     (\<exists>c ks fs. load_credentials_from_env getenv = Inr c \<and> loads_key c ks \<and> es = ks @ fs)"

lemma started_failed: "list_all quiet es \<Longrightarrow> started getenv (Exit 1) es"
  by (simp add: started_def)

lemma main_program_events:
  "events (main_program D encode_block getenv argv)
     (\<lambda>r es. \<exists>a1 e1 a2 e2 a3 e3 fs.
        es = [(CallSys (Sigaction SIGINT 0), AnsRet a1 e1), (CallSys (Sigaction SIGTERM 0), AnsRet a2 e2),
              (CallSys (Signal_ignore SIGPIPE), AnsRet a3 e3)] @ fs \<and> started getenv r fs) w"
proof -
  let ?body = "case load_credentials_from_env getenv of Inl _ \<Rightarrow> io_return (Exit 1)
    | Inr c \<Rightarrow> io_bind (from_credentials c) (\<lambda>signer.
        case signer of Inl _ \<Rightarrow> io_return (Exit 1) | Inr s \<Rightarrow> run_command D encode_block (signer_key_id s) argv)"
  have body: "events ?body (started getenv) w'" for w'
  proof (cases "load_credentials_from_env getenv")
    case (Inl e)
    then show ?thesis by (auto intro!: events_return simp: started_def)
  next
    case (Inr c)
    have run: "events (run_command D encode_block kid argv) (\<lambda>y fs. started getenv y (es @ fs)) w''"
      if "loads_key c es" for kid es w''
      by (rule events_mono [OF events_shrinks [OF shrinks_run_command]]) (use that Inr in \<open>auto simp: started_def\<close>)
    show ?thesis
      unfolding Inr sum.case
      by (rule events_bind [OF from_credentials_events])
        (auto intro!: events_return run started_failed split: sum.splits)
  qed
  show ?thesis
    unfolding main_program_def install_signal_handlers_def
    by (rule events_bind [where S = "\<lambda>_ es. \<exists>a1 e1 a2 e2 a3 e3. es = [(CallSys (Sigaction SIGINT 0), AnsRet a1 e1),
          (CallSys (Sigaction SIGTERM 0), AnsRet a2 e2), (CallSys (Signal_ignore SIGPIPE), AnsRet a3 e3)]"],
        intro events_call events_return, simp)
      (rule events_mono [OF body], auto)
qed

section \<open>Properties\<close>

text \<open>
  C17. The program installs its signal handlers first, and does nothing on the network without a key. If it ends with
  another exit code than 1, or has opened a connection or sent anything, then both environment variables were set and the
  private key was read from the file they name, before any of it.
\<close>

theorem main_requires_key:
  assumes "main_program D encode_block getenv argv w = Some (r, w')"
  shows "\<exists>a1 e1 a2 e2 a3 e3 es. trace w' = trace w @
      [(CallSys (Sigaction SIGINT 0), AnsRet a1 e1), (CallSys (Sigaction SIGTERM 0), AnsRet a2 e2),
       (CallSys (Signal_ignore SIGPIPE), AnsRet a3 e3)] @ es \<and>
    (r \<noteq> Exit 1 \<or> (\<exists>e \<in> set es. is_connect e \<or> is_send e) \<longrightarrow>
       (\<exists>c ks fs. load_credentials_from_env getenv = Inr c \<and> loads_key c ks \<and> es = ks @ fs))"
proof -
  from eventsD [OF main_program_events assms] obtain a1 e1 a2 e2 a3 e3 es where
    "trace w' = trace w @ [(CallSys (Sigaction SIGINT 0), AnsRet a1 e1), (CallSys (Sigaction SIGTERM 0), AnsRet a2 e2),
       (CallSys (Signal_ignore SIGPIPE), AnsRet a3 e3)] @ es" and s: "started getenv r es" by blast
  moreover from s have "r \<noteq> Exit 1 \<or> (\<exists>e \<in> set es. is_connect e \<or> is_send e) \<longrightarrow>
       (\<exists>c ks fs. load_credentials_from_env getenv = Inr c \<and> loads_key c ks \<and> es = ks @ fs)"
    by (auto simp: started_def list_all_iff quiet_def)
  ultimately show ?thesis by blast
qed


section \<open>Witnesses\<close>

text \<open>A run whose balance requests cannot be signed and whose transfer is answered with an empty object.\<close>

definition transfer_world :: world where
  "transfer_world = \<lparr>answers =
     [AnsTime 0, AnsSign (Inl ''e''), AnsTime 0, AnsSign (Inr ''s''), AnsConnect (Inr ()), AnsTime 1, AnsSend (Inr 40), AnsTime 2,
      AnsReceive (Inr (length_head @ header_end_mark @ [CHR 0x7B, CHR 0x7D])), AnsTime 3, AnsDone,
      AnsTime 0, AnsSign (Inl ''e'')], trace = []\<rparr>"

lemma transfer_run: "\<exists>w'. fund_shard ''id'' 3 5 transfer_world = Some (0, w')"
proof -
  obtain p where p: "parse_http_response (length_head @ header_end_mark @ [CHR 0x7B, CHR 0x7D]) False = Inr (Some p)"
    "http_body (response p) = [CHR 0x7B, CHR 0x7D]"
    using sample_length_response [of "[CHR 0x7B, CHR 0x7D]" False] by auto
  have json: "parse_json [CHR 0x7B, CHR 0x7D] = Inr (JObject [])"
    using parse_json_members [of "[]"] by (simp add: print_members_def emplace_all_def)
  have amount: "mul64 5 10000 = Some 50000" by (simp add: mul64_def in_int64_def INT64_MAX_def INT64_MIN_def)
  note run = request_json_def request_def send_request_def send_reused_def open_and_send_def send_once_def finish_request_def
    open_connection_def io_bind_def io_return_def [abs_def] io_of_def Let_def calls ask_def read_response.simps auth_headers_def
    current_timestamp_ms_def
  show ?thesis using p
    by (simp add: fund_shard_def print_balance_def run amount HttpClient_init_def transfer_world_def parse_http_empty json)
qed

definition sample_env :: "string \<rightharpoonup> string" where
  "sample_env = [''KALSHI_API_KEY_ID'' \<mapsto> ''id'', ''KALSHI_PRIVATE_KEY_PATH'' \<mapsto> ''key.pem'']"

theorem main_requires_key_witness:
  "\<exists>w' ks fs. main_program real_ops (\<lambda>_. []) sample_env [''bot'', ''--fund-shard'', ''x'', ''5'']
       \<lparr>answers = [AnsRet 0 0, AnsRet 0 0, AnsRet 0 0, AnsRet 1 0, AnsRet 1 0], trace = []\<rparr> = Some (Terminate, w') \<and>
     loads_key \<lparr>key_id = ''id'', private_key_path = ''key.pem''\<rparr> ks \<and> drop 3 (trace w') = ks @ fs"
proof -
  have env: "load_credentials_from_env sample_env = Inr \<lparr>key_id = ''id'', private_key_path = ''key.pem''\<rparr>"
    by (simp add: load_credentials_from_env_def sample_env_def)
  have bad: "stoi ''x'' = None" by code_simp
  obtain w' where run: "main_program real_ops (\<lambda>_. []) sample_env [''bot'', ''--fund-shard'', ''x'', ''5'']
       \<lparr>answers = [AnsRet 0 0, AnsRet 0 0, AnsRet 0 0, AnsRet 1 0, AnsRet 1 0], trace = []\<rparr> = Some (Terminate, w')"
    by (simp add: main_program_def install_signal_handlers_def env from_credentials_def run_command_def run_fund_shard_def bad
        io_bind_def io_return_def [abs_def] sys_ret_def ask_def)
  from main_requires_key [OF run] env run show ?thesis by auto
qed


end
