(* ===== verification/Decoder_Equivalence.thy ===== *)
theory Decoder_Equivalence
  imports Kalshi_Decoder
begin

text \<open>
  The stream decoder of \<open>Kalshi_Decoder\<close> accepts and rejects exactly what the tree path
  \<open>parse_json\<close> followed by \<open>parse_kalshi_message\<close> does, and builds the same message. The proof is a
  simulation: both read the same tokens, and \<open>agree\<close> relates the outcome of a parser of
  \<open>Json_Parser\<close> with that of the decoder function that walks the same value. Each callback of the
  decoder is related to the tree by what it has recorded so far.
\<close>

section \<open>Agreement of a parser and a decoder step\<close>

definition agree :: "('a \<Rightarrow> 'b \<Rightarrow> bool) \<Rightarrow> 'a parse_result \<Rightarrow> 'b dec \<Rightarrow> bool" where
  "agree R pr dr \<longleftrightarrow>
     (case dr of
        Inl (e, needs_fallback) \<Rightarrow> if needs_fallback then e \<noteq> OutOfFuel else pr = Inl e
      | Inr (b, lx) \<Rightarrow> \<exists>a. pr = Inr (a, lx) \<and> R a b)"

lemma agree_fail [simp]: "agree R (fail w lx) (dec_fail w lx)"
  by (simp add: agree_def fail_def dec_fail_def)

lemma agree_Inl [simp]: "agree R (Inl e) (Inl (e, False))"
  by (simp add: agree_def)

lemma agree_Inr [simp]: "agree R (Inr (a, lx)) (Inr (b, lx)) \<longleftrightarrow> R a b"
  by (simp add: agree_def)

lemma agree_bind:
  assumes "agree R pr dr" and "\<And>a b lx. R a b \<Longrightarrow> pr = Inr (a, lx) \<Longrightarrow> agree R' (k a lx) (k' b lx)"
  shows "agree R' (case pr of Inl e \<Rightarrow> Inl e | Inr (a, lx) \<Rightarrow> k a lx)
                  (case dr of Inl e \<Rightarrow> Inl e | Inr (b, lx) \<Rightarrow> k' b lx)"
proof (cases dr)
  case (Inl e)
  with assms(1) show ?thesis by (cases e) (auto simp: agree_def)
next
  case (Inr x)
  obtain b lx where x: "x = (b, lx)" by (cases x)
  with assms(1) Inr obtain a where "pr = Inr (a, lx)" "R a b" by (auto simp: agree_def)
  with assms(2) Inr x show ?thesis by simp
qed

lemma agree_mono: "agree R pr dr \<Longrightarrow> (\<And>a b lx. R a b \<Longrightarrow> pr = Inr (a, lx) \<Longrightarrow> R' a b) \<Longrightarrow> agree R' pr dr"
  by (auto simp: agree_def split: sum.splits)

lemma agree_store: "agree R pr (store upd dr) \<longleftrightarrow> agree (\<lambda>a b. R a (upd b)) pr dr"
  by (simp add: agree_def store_def split: sum.split prod.split)

definition same_token :: "Token \<Rightarrow> Token \<Rightarrow> bool" where
  "same_token t t' \<longleftrightarrow> t' = t \<and> \<not> has_escapes t"

lemma agree_next: "agree same_token (next_token lx) (dec_next lx)"
  using next_token_progress(5)
  by (auto simp: agree_def dec_next_def same_token_def split: sum.split prod.split)

lemma string_value_plain: "\<not> has_escapes t \<Longrightarrow> string_value t lx = Inr (tok_text t)"
  by (simp add: string_value_def)

section \<open>The loops with callbacks\<close>

text \<open>
  What the loop over the members of an object relies on: if the callback's state describes the
  members read so far, then after the value of a further key it describes them with that member
  added, and the callback reads the same bytes as the value parser.
\<close>

locale member_callback =
  fixes pv :: "Token \<Rightarrow> JsonLexer \<Rightarrow> JsonValue parse_result"
    and f :: "string \<Rightarrow> Token \<Rightarrow> 's \<Rightarrow> JsonLexer \<Rightarrow> 's dec"
    and R :: "JsonObject \<Rightarrow> 's \<Rightarrow> bool"
  assumes callback: "R obj st \<Longrightarrow> \<not> has_escapes t \<Longrightarrow>
    agree (\<lambda>v st'. R (emplace key v obj) st') (pv t lx) (f key t st lx)"
begin

lemma members_loop_agree:
  "R obj st \<Longrightarrow> \<not> has_escapes token \<Longrightarrow>
     agree R (object_loop fuel pv token obj lx) (members_loop fuel f token st lx)"
proof (induction fuel arbitrary: token obj st lx)
  case (Suc fuel)
  then show ?case
    by (auto simp: string_value_plain Let_def same_token_def
        intro!: agree_bind [OF agree_next] agree_bind [OF callback])
qed simp

lemma for_each_member_agree: "R [] st \<Longrightarrow> agree R (parse_object pv lx) (for_each_member f st lx)"
  unfolding parse_object_def for_each_member_def
  by (auto simp: same_token_def intro!: agree_bind [OF agree_next] members_loop_agree)

end

text \<open>The same for the elements of an array.\<close>

locale element_callback =
  fixes pv :: "Token \<Rightarrow> JsonLexer \<Rightarrow> JsonValue parse_result"
    and f :: "Token \<Rightarrow> 's \<Rightarrow> JsonLexer \<Rightarrow> 's dec"
    and R :: "JsonArray \<Rightarrow> 's \<Rightarrow> bool"
  assumes callback: "R arr st \<Longrightarrow> \<not> has_escapes t \<Longrightarrow>
    agree (\<lambda>v st'. R (arr @ [v]) st') (pv t lx) (f t st lx)"
begin

lemma elements_loop_agree:
  "R arr st \<Longrightarrow> \<not> has_escapes token \<Longrightarrow>
     agree R (array_loop fuel pv token arr lx) (elements_loop fuel f token st lx)"
proof (induction fuel arbitrary: token arr st lx)
  case (Suc fuel)
  then show ?case
    by (auto simp: Let_def same_token_def intro!: agree_bind [OF agree_next] agree_bind [OF callback])
qed simp

lemma for_each_element_agree: "R [] st \<Longrightarrow> agree R (parse_array pv lx) (for_each_element f st lx)"
  unfolding parse_array_def for_each_element_def
  by (auto simp: same_token_def intro!: agree_bind [OF agree_next] elements_loop_agree)

end

section \<open>Skipped values\<close>

lemma agree_wrap:
  "agree R (case pr of Inl e \<Rightarrow> Inl e | Inr (a, lx) \<Rightarrow> Inr (g a, lx)) dr \<longleftrightarrow> agree (\<lambda>a. R (g a)) pr dr"
  by (auto simp: agree_def split: sum.split prod.split)

definition value_at :: "nat \<Rightarrow> Token \<Rightarrow> JsonLexer \<Rightarrow> JsonValue parse_result" where
  "value_at depth t = parse_value (kMaxJsonDepth - depth) t depth"

lemma skip_levels_agree:
  "\<not> has_escapes t \<Longrightarrow> agree (\<lambda>_ _. True) (parse_value n t depth lx) (skip_levels n t depth lx)"
proof (induction n arbitrary: t depth lx)
  case 0
  then show ?case
    by (simp add: parse_value.simps [of 0] skip_levels.simps [of 0] string_value_plain split: TokenType.split)
next
  case (Suc n)
  have m: "member_callback (\<lambda>t. parse_value n t (depth + 1)) (\<lambda>_ v _. skip_levels n v (depth + 1)) (\<lambda>_ _. True)"
    and e: "element_callback (\<lambda>t. parse_value n t (depth + 1)) (\<lambda>v _. skip_levels n v (depth + 1)) (\<lambda>_ _. True)"
    using Suc.IH by unfold_locales simp_all
  from Suc.prems member_callback.for_each_member_agree [OF m] element_callback.for_each_element_agree [OF e]
  show ?case
    by (simp add: parse_value.simps [of "Suc n"] skip_levels.simps [of "Suc n"] string_value_plain agree_wrap
        split: TokenType.split)
qed

lemma skip_value_agree: "\<not> has_escapes t \<Longrightarrow> agree (\<lambda>_ _. True) (value_at depth t lx) (skip_value t depth lx)"
  by (simp add: value_at_def skip_value_def skip_levels_agree)

lemma value_at_text:
  "is_text (tok_type t) \<Longrightarrow> \<not> has_escapes t \<Longrightarrow> value_at depth t lx = Inr (JString (tok_text t), lx)"
  by (auto simp: is_text_def value_at_def parse_value.simps string_value_plain)

lemma value_at_container:
  assumes "depth < kMaxJsonDepth"
  shows "tok_type t = LeftBracket \<Longrightarrow> value_at depth t lx =
      (case parse_array (value_at (depth + 1)) lx of
         Inl e \<Rightarrow> Inl e | Inr (arr, lx') \<Rightarrow> Inr (JArray arr, lx'))"
    and "tok_type t = LeftBrace \<Longrightarrow> value_at depth t lx =
      (case parse_object (value_at (depth + 1)) lx of
         Inl e \<Rightarrow> Inl e | Inr (obj, lx') \<Rightarrow> Inr (JObject obj, lx'))"
proof -
  have "kMaxJsonDepth - depth = Suc (kMaxJsonDepth - (depth + 1))" using assms by simp
  moreover have "value_at (depth + 1) = (\<lambda>t. parse_value (kMaxJsonDepth - (depth + 1)) t (depth + 1))"
    by (simp add: value_at_def fun_eq_iff)
  ultimately show "tok_type t = LeftBracket \<Longrightarrow> value_at depth t lx =
      (case parse_array (value_at (depth + 1)) lx of
         Inl e \<Rightarrow> Inl e | Inr (arr, lx') \<Rightarrow> Inr (JArray arr, lx'))"
    "tok_type t = LeftBrace \<Longrightarrow> value_at depth t lx =
      (case parse_object (value_at (depth + 1)) lx of
         Inl e \<Rightarrow> Inl e | Inr (obj, lx') \<Rightarrow> Inr (JObject obj, lx'))"
    using assms by (simp_all add: value_at_def [of depth] parse_value.simps [of "Suc _"])
qed

lemma value_at_deep:
  "kMaxJsonDepth \<le> depth \<Longrightarrow> tok_type t = LeftBracket \<or> tok_type t = LeftBrace \<Longrightarrow>
     value_at depth t lx = fail ''JSON nested too deeply'' lx"
  by (auto simp: value_at_def parse_value.simps)

text \<open>The kind of a value is decided by its first token.\<close>

lemma value_at_kind:
  assumes "value_at depth t lx = Inr (v, lx')"
  shows "(\<exists>s. v = JString s) \<longleftrightarrow> is_text (tok_type t)"
    and "(\<exists>a. v = JArray a) \<longleftrightarrow> tok_type t = LeftBracket"
    and "(\<exists>obj. v = JObject obj) \<longleftrightarrow> tok_type t = LeftBrace"
  using assms
  by (auto simp: value_at_def parse_value.simps [of "kMaxJsonDepth - depth"] is_text_def fail_def
      split: TokenType.split_asm if_split_asm sum.split_asm nat.split_asm)

interpretation skip_members: member_callback "value_at depth" "\<lambda>_ v _. skip_value v depth" "\<lambda>_ _. True" for depth
  by unfold_locales (simp add: skip_value_agree)

interpretation skip_elements: element_callback "value_at depth" "\<lambda>v _. skip_value v depth" "\<lambda>_ _. True" for depth
  by unfold_locales (simp add: skip_value_agree)

section \<open>What a field has recorded\<close>

definition json_text :: "JsonValue \<Rightarrow> string option" where
  "json_text v = (case v of JString s \<Rightarrow> Some s | _ \<Rightarrow> None)"

definition level_view :: "JsonValue \<Rightarrow> PriceLevel option" where
  "level_view item = (case item of JArray [JString a, JString b] \<Rightarrow> Some (a, b) | _ \<Rightarrow> None)"

definition scalar_rel :: "JsonObject \<Rightarrow> string \<Rightarrow> Scalar \<Rightarrow> bool" where
  "scalar_rel obj key sc \<longleftrightarrow>
     sc_seen sc = (map_of obj key \<noteq> None) \<and> sc_value sc = get_string obj key"

definition levels_rel :: "JsonObject \<Rightarrow> string \<Rightarrow> LevelsField \<Rightarrow> bool" where
  "levels_rel obj key lf \<longleftrightarrow>
     lf_seen lf = (map_of obj key \<noteq> None) \<and>
     (case get_array obj key of
        None \<Rightarrow> \<not> lf_present lf \<and> lf_valid lf \<and> lf_levels lf = []
      | Some arr \<Rightarrow> lf_present lf \<and> lf_valid lf = list_all (\<lambda>i. level_view i \<noteq> None) arr \<and>
                    lf_levels lf = List.map_filter level_view arr)"

lemma map_of_emplace_other:
  "sorted_keys obj \<Longrightarrow> key \<noteq> k \<Longrightarrow> map_of (emplace key v obj) k = map_of obj k"
  by (simp add: map_of_emplace split: option.split)

lemma map_of_emplace_same:
  "sorted_keys obj \<Longrightarrow> map_of (emplace key v obj) key = (case map_of obj key of None \<Rightarrow> Some v | Some w \<Rightarrow> Some w)"
  by (simp add: map_of_emplace split: option.split)

lemma get_emplace_other:
  assumes "sorted_keys obj" "key \<noteq> k"
  shows "get_string (emplace key v obj) k = get_string obj k" "get_array (emplace key v obj) k = get_array obj k"
    "get_object (emplace key v obj) k = get_object obj k"
  using map_of_emplace_other [OF assms] by (simp_all add: get_string_def get_array_def get_object_def)

lemma rel_other [simp]:
  assumes "sorted_keys obj" "key \<noteq> k"
  shows "scalar_rel (emplace key v obj) k sc \<longleftrightarrow> scalar_rel obj k sc"
    "levels_rel (emplace key v obj) k lf \<longleftrightarrow> levels_rel obj k lf"
  using map_of_emplace_other [OF assms] get_emplace_other [OF assms]
  by (simp_all add: scalar_rel_def levels_rel_def)

lemma scalar_agree:
  assumes "sorted_keys obj" "scalar_rel obj key sc" "\<not> has_escapes t"
  shows "agree (\<lambda>v sc'. scalar_rel (emplace key v obj) key sc') (value_at depth t lx) (scalar sc t depth lx)"
proof (cases "\<not> sc_seen sc \<and> is_text (tok_type t)")
  case True
  then show ?thesis
    using assms by (simp add: scalar_def value_at_text scalar_rel_def get_string_def map_of_emplace_same)
next
  case False
  have "scalar_rel (emplace key v obj) key (sc\<lparr>sc_seen := True\<rparr>)"
    if "value_at depth t lx = Inr (v, lx')" for v lx'
    using assms False value_at_kind(1) [OF that]
    by (auto simp: scalar_rel_def get_string_def map_of_emplace_same split: option.split JsonValue.split)
  with False show ?thesis
    unfolding scalar_def
    by (auto simp: agree_store intro: agree_mono [OF skip_value_agree [OF assms(3)]])
qed

text \<open>The parts of one price level, and the levels of one side.\<close>

definition pair_rel :: "JsonArray \<Rightarrow> LevelPair \<Rightarrow> bool" where
  "pair_rel vs p \<longleftrightarrow>
     lp_count p = length vs \<and> lp_all_text p = list_all (\<lambda>v. json_text v \<noteq> None) vs \<and>
     (\<forall>x xs. vs = JString x # xs \<longrightarrow> lp_first p = x) \<and>
     (\<forall>v y xs. vs = v # JString y # xs \<longrightarrow> lp_second p = y)"

definition side_rel :: "JsonArray \<Rightarrow> LevelsField \<Rightarrow> bool" where
  "side_rel arr lf \<longleftrightarrow> lf_seen lf \<and> lf_present lf \<and>
     lf_valid lf = list_all (\<lambda>i. level_view i \<noteq> None) arr \<and> lf_levels lf = List.map_filter level_view arr"

lemma json_text_None: "json_text v = None \<longleftrightarrow> (\<nexists>s. v = JString s)"
  by (auto simp: json_text_def split: JsonValue.split)

lemma pair_rel_text:
  "pair_rel vs p \<Longrightarrow> pair_rel (vs @ [JString x])
     (p\<lparr>lp_first := (if lp_count p = 0 then x else lp_first p),
        lp_second := (if lp_count p = 1 then x else lp_second p), lp_count := lp_count p + 1\<rparr>)"
  by (cases vs; cases "tl vs") (auto simp: pair_rel_def json_text_def)

lemma pair_rel_other:
  "pair_rel vs p \<Longrightarrow> json_text v = None \<Longrightarrow>
     pair_rel (vs @ [v]) (p\<lparr>lp_all_text := False, lp_count := lp_count p + 1\<rparr>)"
  by (cases vs; cases "tl vs") (auto simp: pair_rel_def json_text_None)

interpretation level_parts: element_callback "value_at depth" "\<lambda>x. level_part x depth" pair_rel for depth
proof
  fix vs and p :: LevelPair and t :: Token and lx :: JsonLexer
  assume R: "pair_rel vs p" and t: "\<not> has_escapes t"
  show "agree (\<lambda>v p'. pair_rel (vs @ [v]) p') (value_at depth t lx) (level_part t depth p lx)"
  proof (cases "is_text (tok_type t)")
    case True
    then show ?thesis using pair_rel_text [OF R] by (simp add: level_part_def value_at_text [OF True t])
  next
    case False
    have "json_text v = None" if "value_at depth t lx = Inr (v, lx')" for v lx'
      using value_at_kind(1) [OF that] False by (simp add: json_text_None)
    with False show ?thesis unfolding level_part_def
      by (auto simp: agree_store intro!: agree_mono [OF skip_value_agree [OF t]] pair_rel_other [OF R, simplified])
  qed
qed

lemma level_view_pair:
  assumes "pair_rel vs p"
  shows "level_view (JArray vs) = (if lp_count p = 2 \<and> lp_all_text p then Some (lp_first p, lp_second p) else None)"
proof (cases "length vs = 2")
  case True
  then obtain a b where vs: "vs = [a, b]" by (auto simp: numeral_2_eq_2 length_Suc_conv)
  show ?thesis
    using assms by (cases a; cases b) (auto simp: vs pair_rel_def level_view_def json_text_def)
next
  case False
  then have "level_view (JArray vs) = None"
    by (auto simp: level_view_def split: list.split JsonValue.split)
  with False assms show ?thesis by (simp add: pair_rel_def)
qed

lemma map_filter_snoc: "List.map_filter g (xs @ [x]) = List.map_filter g xs @ (case g x of None \<Rightarrow> [] | Some y \<Rightarrow> [y])"
  by (simp add: List.map_filter_def split: option.split)

lemma side_rel_snoc:
  "side_rel arr lf \<Longrightarrow> side_rel (arr @ [v])
     (case level_view v of None \<Rightarrow> lf\<lparr>lf_valid := False\<rparr> | Some l \<Rightarrow> lf\<lparr>lf_levels := lf_levels lf @ [l]\<rparr>)"
  by (simp add: side_rel_def map_filter_snoc split: option.split)

lemma side_rel_pair:
  "side_rel arr lf \<Longrightarrow> pair_rel vs p \<Longrightarrow> side_rel (arr @ [JArray vs])
     (if lp_count p = 2 \<and> lp_all_text p then lf\<lparr>lf_levels := lf_levels lf @ [(lp_first p, lp_second p)]\<rparr>
      else lf\<lparr>lf_valid := False\<rparr>)"
  using side_rel_snoc [of arr lf "JArray vs"] by (auto simp: level_view_pair split: if_splits)

interpretation level_elements: element_callback "value_at depth" "\<lambda>element. level_element element depth" side_rel for depth
proof
  fix arr and lf :: LevelsField and t :: Token and lx :: JsonLexer
  assume R: "side_rel arr lf" and t: "\<not> has_escapes t"
  show "agree (\<lambda>v lf'. side_rel (arr @ [v]) lf') (value_at depth t lx) (level_element t depth lf lx)"
  proof (cases "tok_type t = LeftBracket")
    case False
    have "level_view v = None" if "value_at depth t lx = Inr (v, lx')" for v lx'
      using value_at_kind(2) [OF that] False by (auto simp: level_view_def split: JsonValue.split)
    with False side_rel_snoc [OF R] show ?thesis unfolding level_element_def
      by (auto simp: agree_store intro!: agree_mono [OF skip_value_agree [OF t]]) (metis option.case(1))
  next
    case True
    show ?thesis
    proof (cases "depth < kMaxJsonDepth")
      case lt: True
      have "agree pair_rel (parse_array (value_at (depth + 1)) lx)
          (for_each_element (\<lambda>x. level_part x (depth + 1))
             \<lparr>lp_first = [], lp_second = [], lp_count = 0, lp_all_text = True\<rparr> lx)"
        by (rule level_parts.for_each_element_agree) (simp add: pair_rel_def)
      then show ?thesis
        using True lt
        by (simp add: level_element_def value_at_container(1) [OF lt] agree_wrap agree_store split del: if_split)
          (erule agree_mono, rule side_rel_pair [OF R])
    qed (use True in \<open>simp add: level_element_def value_at_deep\<close>)
  qed
qed

lemma levels_agree:
  assumes "sorted_keys obj" "levels_rel obj key lf" "\<not> has_escapes t"
  shows "agree (\<lambda>v lf'. levels_rel (emplace key v obj) key lf') (value_at depth t lx) (levels lf t depth lx)"
proof (cases "lf_seen lf \<or> tok_type t \<noteq> LeftBracket")
  case True
  have "levels_rel (emplace key v obj) key (lf\<lparr>lf_seen := True\<rparr>)"
    if "value_at depth t lx = Inr (v, lx')" for v lx'
    using assms True value_at_kind(2) [OF that]
    by (auto simp: levels_rel_def get_array_def map_of_emplace_same split: option.splits JsonValue.splits)
  with True show ?thesis unfolding levels_def
    by (auto simp: agree_store intro: agree_mono [OF skip_value_agree [OF assms(3)]])
next
  case False
  show ?thesis
  proof (cases "depth < kMaxJsonDepth")
    case lt: True
    have new: "map_of obj key = None" using False assms(2) by (simp add: levels_rel_def)
    with assms(2) have "side_rel [] (lf\<lparr>lf_seen := True, lf_present := True\<rparr>)"
      by (simp add: levels_rel_def side_rel_def get_array_def List.map_filter_def)
    from level_elements.for_each_element_agree [OF this, of "depth + 1" lx] show ?thesis
      using False lt assms(1) new
      by (auto simp: levels_def value_at_container(1) [OF lt] agree_wrap levels_rel_def side_rel_def
          get_array_def map_of_emplace_same elim!: agree_mono)
  qed (use False in \<open>simp add: levels_def value_at_deep\<close>)
qed

section \<open>The members of the message and of the root\<close>

definition msg_rel :: "JsonObject \<Rightarrow> Fields \<Rightarrow> bool" where
  "msg_rel obj f \<longleftrightarrow> sorted_keys obj \<and>
     scalar_rel obj ''market_ticker'' (f_market_ticker f) \<and> scalar_rel obj ''market_id'' (f_market_id f) \<and>
     scalar_rel obj ''price_dollars'' (f_price_dollars f) \<and> scalar_rel obj ''delta_fp'' (f_delta_fp f) \<and>
     scalar_rel obj ''side'' (f_side f) \<and> scalar_rel obj ''ts'' (f_ts f) \<and>
     scalar_rel obj ''ts_ms'' (f_ts_ms f) \<and> scalar_rel obj ''order_id'' (f_order_id f) \<and>
     scalar_rel obj ''count_fp'' (f_count_fp f) \<and> scalar_rel obj ''action'' (f_action f) \<and>
     levels_rel obj ''yes_dollars_fp'' (f_yes f) \<and> levels_rel obj ''no_dollars_fp'' (f_no f)"

definition head_fields :: "Fields \<Rightarrow> Scalar \<times> Scalar \<times> Scalar \<times> bool \<times> bool" where
  "head_fields f = (f_type f, f_sid f, f_seq f, f_msg_seen f, f_msg_is_object f)"

lemma msg_member_agree:
  assumes R: "msg_rel obj f" and h: "head_fields f = h" and t: "\<not> has_escapes t"
  shows "agree (\<lambda>v f'. msg_rel (emplace key v obj) f' \<and> head_fields f' = h)
    (value_at depth t lx) (msg_member key t depth f lx)"
proof -
  have so: "sorted_keys obj" using R by (simp add: msg_rel_def)
  note sc = agree_mono [OF scalar_agree [OF so _ t]] and lv = agree_mono [OF levels_agree [OF so _ t]]
    and sk = agree_mono [OF skip_value_agree [OF t]]
  note unf = msg_member_def agree_store
  note rel = R [unfolded msg_rel_def] h [unfolded head_fields_def]
  consider "key = ''market_ticker''" | "key = ''market_id''" | "key = ''price_dollars''" | "key = ''delta_fp''"
    | "key = ''side''" | "key = ''ts''" | "key = ''ts_ms''" | "key = ''order_id''" | "key = ''count_fp''"
    | "key = ''action''" | "key = ''yes_dollars_fp''" | "key = ''no_dollars_fp''"
    | (other) "key \<noteq> ''market_ticker''" "key \<noteq> ''market_id''" "key \<noteq> ''price_dollars''" "key \<noteq> ''delta_fp''"
      "key \<noteq> ''side''" "key \<noteq> ''ts''" "key \<noteq> ''ts_ms''" "key \<noteq> ''order_id''" "key \<noteq> ''count_fp''"
      "key \<noteq> ''action''" "key \<noteq> ''yes_dollars_fp''" "key \<noteq> ''no_dollars_fp''" by blast
  then show ?thesis
    by cases ((simp add: unf, rule sc lv sk; use rel in \<open>simp add: msg_rel_def head_fields_def sorted_emplace\<close>))+
qed

interpretation msg_members: member_callback "value_at depth" "\<lambda>k v. msg_member k v depth"
  "\<lambda>obj f. msg_rel obj f \<and> head_fields f = h" for depth h
  by unfold_locales (simp add: msg_member_agree)

definition msg_object :: "JsonObject \<Rightarrow> JsonObject" where
  "msg_object obj = (case get_object obj ''msg'' of None \<Rightarrow> [] | Some m \<Rightarrow> m)"

definition root_rel :: "JsonObject \<Rightarrow> Fields \<Rightarrow> bool" where
  "root_rel obj f \<longleftrightarrow> sorted_keys obj \<and>
     scalar_rel obj ''type'' (f_type f) \<and> scalar_rel obj ''sid'' (f_sid f) \<and> scalar_rel obj ''seq'' (f_seq f) \<and>
     f_msg_seen f = (map_of obj ''msg'' \<noteq> None) \<and> f_msg_is_object f = (get_object obj ''msg'' \<noteq> None) \<and>
     msg_rel (msg_object obj) f"

lemma msg_rel_head [simp]:
  "msg_rel obj (f\<lparr>f_type := a\<rparr>) = msg_rel obj f" "msg_rel obj (f\<lparr>f_sid := a\<rparr>) = msg_rel obj f"
  "msg_rel obj (f\<lparr>f_seq := a\<rparr>) = msg_rel obj f" "msg_rel obj (f\<lparr>f_msg_seen := b\<rparr>) = msg_rel obj f"
  "msg_rel obj (f\<lparr>f_msg_is_object := b\<rparr>) = msg_rel obj f"
  by (simp_all add: msg_rel_def)

lemma msg_object_other [simp]: "sorted_keys obj \<Longrightarrow> key \<noteq> ''msg'' \<Longrightarrow> msg_object (emplace key v obj) = msg_object obj"
  by (simp add: msg_object_def get_emplace_other)

lemma root_rel_init: "root_rel [] Fields_init"
  by (simp add: root_rel_def Fields_init_def msg_object_def msg_rel_def get_object_def scalar_rel_def levels_rel_def
      Scalar_init_def LevelsField_init_def get_string_def get_array_def)

lemma root_msg_agree:
  assumes R: "root_rel obj f" and t: "\<not> has_escapes t" and lt: "depth < kMaxJsonDepth"
  shows "agree (\<lambda>v f'. root_rel (emplace ''msg'' v obj) f') (value_at depth t lx) (root_member ''msg'' t depth f lx)"
proof -
  have so: "sorted_keys obj" using R by (simp add: root_rel_def)
  note rel = R [unfolded root_rel_def]
  have get: "get_object (emplace ''msg'' v obj) ''msg'' =
      (case map_of obj ''msg'' of
         None \<Rightarrow> (case v of JObject m \<Rightarrow> Some m | _ \<Rightarrow> None) | Some w \<Rightarrow> get_object obj ''msg'')" for v
    by (simp add: get_object_def map_of_emplace_same [OF so] split: option.split)
  consider (seen) "f_msg_seen f" | (obj) "\<not> f_msg_seen f" "tok_type t = LeftBrace"
    | (bad) "\<not> f_msg_seen f" "tok_type t \<noteq> LeftBrace" by blast
  then show ?thesis
  proof cases
    case seen
    then obtain w where "map_of obj ''msg'' = Some w" using rel by auto
    with seen rel show ?thesis
      by (simp add: root_member_def agree_store) (rule agree_mono [OF skip_value_agree [OF t]];
          simp add: root_rel_def sorted_emplace map_of_emplace_same [OF so] msg_object_def get)
  next
    case bad
    then have new: "map_of obj ''msg'' = None" "msg_object obj = []" "get_object obj ''msg'' = None"
      using rel by (auto simp: msg_object_def get_object_def)
    have "get_object (emplace ''msg'' v obj) ''msg'' = None" if "value_at depth t lx = Inr (v, lx')" for v lx'
      using value_at_kind(3) [OF that] bad new by (simp add: get split: JsonValue.split)
    with bad rel new show ?thesis
      by (simp add: root_member_def agree_store) (rule agree_mono [OF skip_value_agree [OF t]];
          simp add: root_rel_def sorted_emplace map_of_emplace_same [OF so] msg_object_def)
  next
    case obj
    then have new: "map_of obj ''msg'' = None" "msg_object obj = []" "get_object obj ''msg'' = None"
      using rel by (auto simp: msg_object_def get_object_def)
    let ?f = "f\<lparr>f_msg_seen := True, f_msg_is_object := True\<rparr>"
    have "msg_rel [] ?f \<and> head_fields ?f = head_fields ?f" using rel new by simp
    from msg_members.for_each_member_agree [OF this, of "depth + 1" lx] show ?thesis
      using obj lt rel new
      by (simp add: root_member_def value_at_container(2) [OF lt] agree_wrap) (erule agree_mono;
          simp add: root_rel_def head_fields_def sorted_emplace map_of_emplace_same [OF so] msg_object_def get)
  qed
qed

lemma root_member_agree:
  assumes R: "root_rel obj f" and t: "\<not> has_escapes t" and lt: "depth < kMaxJsonDepth"
  shows "agree (\<lambda>v f'. root_rel (emplace key v obj) f') (value_at depth t lx) (root_member key t depth f lx)"
proof -
  have so: "sorted_keys obj" using R by (simp add: root_rel_def)
  note sc = agree_mono [OF scalar_agree [OF so _ t]] and sk = agree_mono [OF skip_value_agree [OF t]]
  note rel = R [unfolded root_rel_def]
  consider (msg) "key = ''msg''" | "key = ''type''" | "key = ''sid''" | "key = ''seq''"
    | "key \<noteq> ''msg''" "key \<noteq> ''type''" "key \<noteq> ''sid''" "key \<noteq> ''seq''" by blast
  then show ?thesis
  proof cases
    case msg
    then show ?thesis using root_msg_agree [OF R t lt] by simp
  qed (simp add: root_member_def agree_store, rule sc sk;
      use rel in \<open>simp add: root_rel_def sorted_emplace map_of_emplace_other get_emplace_other\<close>)+
qed

interpretation root_members: member_callback "value_at 1" "\<lambda>k v. root_member k v 1" root_rel
  by unfold_locales (simp add: root_member_agree kMaxJsonDepth_def)

section \<open>Building the message\<close>

text \<open>\<open>same_outcome\<close>: both accept with the same result or both reject; error texts may differ.\<close>

definition same_outcome :: "string + 'a \<Rightarrow> string + 'a \<Rightarrow> bool" where
  "same_outcome a b \<longleftrightarrow> (case a of Inl _ \<Rightarrow> (\<exists>e. b = Inl e) | Inr m \<Rightarrow> b = Inr m)"

lemma same_outcome_simps [simp]:
  "same_outcome (Inl e) (Inl e')" "same_outcome (Inr m) (Inr m') \<longleftrightarrow> m = m'"
  "same_outcome a a"
  by (auto simp: same_outcome_def split: sum.split)

lemma same_outcome_map [intro]:
  "same_outcome a b \<Longrightarrow> same_outcome (map_sum id g a) (map_sum id g b)"
  by (auto simp: same_outcome_def split: sum.splits)

lemma get_uint64_string: "get_uint64 obj key = Option.bind (get_string obj key) parse_u64"
  by (simp add: get_uint64_def get_string_def parse_u64_def split: option.split JsonValue.split)

lemma price_levels_loop_views:
  "if list_all (\<lambda>i. level_view i \<noteq> None) arr
   then price_levels_loop arr acc = Inr (acc @ List.map_filter level_view arr)
   else \<exists>e. price_levels_loop arr acc = Inl e"
proof (induction arr acc rule: price_levels_loop.induct)
  case (2 item items acc)
  show ?case
  proof (cases "\<exists>a b. item = JArray [JString a, JString b]")
    case True
    then show ?thesis using 2 by (auto simp: level_view_def List.map_filter_def)
  next
    case False
    then have "level_view item = None" "\<exists>e. price_levels_loop (item # items) acc = Inl e"
      by (auto simp: level_view_def split: JsonValue.split list.split)
    then show ?thesis by simp
  qed
qed (simp add: List.map_filter_def)

lemma parse_price_levels_cases:
  obtains "list_all (\<lambda>i. level_view i \<noteq> None) arr" "parse_price_levels arr = Inr (List.map_filter level_view arr)"
  | e where "\<not> list_all (\<lambda>i. level_view i \<noteq> None) arr" "parse_price_levels arr = Inl e"
  using price_levels_loop_views [of arr "[]"] by (auto simp: parse_price_levels_def split: if_splits)

definition side_levels :: "JsonObject \<Rightarrow> string \<Rightarrow> string + PriceLevel list" where
  "side_levels obj key = (case get_array obj key of None \<Rightarrow> Inr [] | Some arr \<Rightarrow> parse_price_levels arr)"

lemma side_levels_cases:
  assumes "levels_rel obj key lf"
  obtains "\<not> (lf_present lf \<and> \<not> lf_valid lf)"
      "side_levels obj key = Inr (if lf_present lf then lf_levels lf else [])"
  | e where "lf_present lf" "\<not> lf_valid lf" "side_levels obj key = Inl e"
proof (cases "get_array obj key")
  case None
  with assms that(1) show thesis by (simp add: levels_rel_def side_levels_def)
next
  case (Some arr)
  then show thesis
    using assms that by (cases arr rule: parse_price_levels_cases) (simp_all add: levels_rel_def side_levels_def)
qed

lemma build_snapshot_same:
  assumes R: "msg_rel obj f"
  shows "same_outcome (parse_snapshot obj) (build_snapshot f)"
proof -
  have s: "sc_value (f_market_ticker f) = get_string obj ''market_ticker''"
    "sc_value (f_market_id f) = get_string obj ''market_id''"
    and y: "levels_rel obj ''yes_dollars_fp'' (f_yes f)" and n: "levels_rel obj ''no_dollars_fp'' (f_no f)"
    using R by (simp_all add: msg_rel_def scalar_rel_def)
  note unf = parse_snapshot_def build_snapshot_def s side_levels_def [symmetric]
  consider (some) t i where "get_string obj ''market_ticker'' = Some t" "get_string obj ''market_id'' = Some i"
    | (none) "get_string obj ''market_ticker'' = None \<or> get_string obj ''market_id'' = None"
    by (cases "get_string obj ''market_ticker''"; cases "get_string obj ''market_id''") auto
  then show ?thesis
  proof cases
    case some
    show ?thesis
      by (rule side_levels_cases [OF y]; rule side_levels_cases [OF n]) (auto simp: unf some)
  next
    case none
    then show ?thesis by (auto simp: unf split: option.split)
  qed
qed

lemma build_delta_same: "msg_rel obj f \<Longrightarrow> build_delta f = parse_delta obj"
  by (simp add: msg_rel_def scalar_rel_def parse_delta_def build_delta_def get_uint64_string)

lemma build_fill_same: "msg_rel obj f \<Longrightarrow> same_outcome (parse_fill obj) (build_fill f)"
  by (simp add: msg_rel_def scalar_rel_def parse_fill_def build_fill_def split: option.split sum.split)

lemma build_same:
  assumes R: "root_rel obj f"
  shows "same_outcome (parse_kalshi_message (JObject obj)) (build f)"
proof -
  have s: "sc_value (f_type f) = get_string obj ''type''" "sc_value (f_sid f) = get_string obj ''sid''"
    "sc_value (f_seq f) = get_string obj ''seq''" and o: "f_msg_is_object f = (get_object obj ''msg'' \<noteq> None)"
    using R by (simp_all add: root_rel_def scalar_rel_def)
  have m: "msg_rel m f" if "get_object obj ''msg'' = Some m" for m
    using R that by (simp add: root_rel_def msg_object_def)
  note unf = parse_kalshi_message_def build_def s o Let_def get_uint64_string
  show ?thesis
  proof (cases "get_object obj ''msg''")
    case None
    then show ?thesis by (simp add: unf split: option.split)
  next
    case (Some mo)
    then show ?thesis
      using build_snapshot_same [OF m] build_delta_same [OF m] build_fill_same [OF m]
      by (simp add: unf same_outcome_map split: option.split)
  qed
qed

section \<open>The whole decoder\<close>

lemma value_at_0: "value_at 0 = (\<lambda>t. parse_value kMaxJsonDepth t 0)"
  by (simp add: value_at_def fun_eq_iff)

text \<open>What \<open>decode\<close> returns, in terms of \<open>parse\<close>.\<close>

definition decode_rel :: "json_error + JsonValue \<Rightarrow> decode_error + Fields \<Rightarrow> bool" where
  "decode_rel pr dr \<longleftrightarrow>
     (case dr of
        Inl (e, needs_fallback) \<Rightarrow>
          if needs_fallback then e \<noteq> OutOfFuel
          else pr = Inl e \<or> (e \<noteq> OutOfFuel \<and> (\<exists>v. pr = Inr v \<and> (\<nexists>obj. v = JObject obj)))
      | Inr f \<Rightarrow> \<exists>obj. pr = Inr (JObject obj) \<and> root_rel obj f)"

lemma decode_rel_Inl [simp]: "decode_rel (Inl e) (Inl (e, False))"
  by (simp add: decode_rel_def)

lemma decode_rel_bind:
  assumes "agree R pr dr" and "\<And>a b lx. R a b \<Longrightarrow> pr = Inr (a, lx) \<Longrightarrow> decode_rel (k a lx) (k' b lx)"
  shows "decode_rel (case pr of Inl e \<Rightarrow> Inl e | Inr (a, lx) \<Rightarrow> k a lx)
                    (case dr of Inl e \<Rightarrow> Inl e | Inr (b, lx) \<Rightarrow> k' b lx)"
proof (cases dr)
  case (Inl e)
  with assms(1) show ?thesis by (cases e) (auto simp: agree_def decode_rel_def)
next
  case (Inr x)
  obtain b lx where x: "x = (b, lx)" by (cases x)
  with assms(1) Inr obtain a where "pr = Inr (a, lx)" "R a b" by (auto simp: agree_def)
  with assms(2) Inr x show ?thesis by simp
qed

lemma decode_rel_end:
  "(\<And>lx3. decode_rel (Inr v) (r lx3)) \<Longrightarrow> decode_rel
    (case next_token lx of Inl e \<Rightarrow> Inl e
     | Inr (last_tok, lx3) \<Rightarrow>
         if tok_type last_tok \<noteq> End then fail ''Trailing characters after JSON value'' lx3 else Inr v)
    (case dec_next lx of Inl e \<Rightarrow> Inl e
     | Inr (last_tok, lx3) \<Rightarrow>
         if tok_type last_tok \<noteq> End
         then Inl (JsonError ''Trailing characters after JSON value'' (lx_pos lx3), False) else r lx3)"
  by (rule decode_rel_bind [OF agree_next]) (auto simp: fail_def same_token_def)

lemma decode_parse: "decode_rel (parse bytes) (decode bytes)"
  unfolding parse_def decode_def
proof (rule decode_rel_bind [OF agree_next])
  fix first b lx1
  assume "same_token first b"
  then have b: "b = first" and t: "\<not> has_escapes first" by (simp_all add: same_token_def)
  show "decode_rel
    (case parse_value kMaxJsonDepth first 0 lx1 of Inl e \<Rightarrow> Inl e
     | Inr (value, lx2) \<Rightarrow> (case next_token lx2 of Inl e \<Rightarrow> Inl e
       | Inr (last_tok, lx3) \<Rightarrow>
           if tok_type last_tok \<noteq> End then fail ''Trailing characters after JSON value'' lx3 else Inr value))
    (if tok_type b \<noteq> LeftBrace then
       (case skip_value b 0 lx1 of Inl e \<Rightarrow> Inl e
        | Inr (_, lx2) \<Rightarrow> (case dec_next lx2 of Inl e \<Rightarrow> Inl e
          | Inr (last_tok, lx3) \<Rightarrow>
              if tok_type last_tok \<noteq> End
              then Inl (JsonError ''Trailing characters after JSON value'' (lx_pos lx3), False)
              else Inl (JsonError ''Root JSON is not an object'' (lx_pos lx3), False)))
     else (case for_each_member (\<lambda>k v. root_member k v 1) Fields_init lx1 of Inl e \<Rightarrow> Inl e
        | Inr (f, lx2) \<Rightarrow> (case dec_next lx2 of Inl e \<Rightarrow> Inl e
          | Inr (last_tok, lx3) \<Rightarrow>
              if tok_type last_tok \<noteq> End
              then Inl (JsonError ''Trailing characters after JSON value'' (lx_pos lx3), False)
              else Inr f)))"
  proof (cases "tok_type first = LeftBrace")
    case True
    have "agree (\<lambda>v. \<lambda>f. \<exists>obj. v = JObject obj \<and> root_rel obj f) (parse_value kMaxJsonDepth first 0 lx1)
        (for_each_member (\<lambda>k v. root_member k v 1) Fields_init lx1)"
      using root_members.for_each_member_agree [OF root_rel_init, of lx1] value_at_container(2) [of 0 first lx1] True
      by (simp add: value_at_0 kMaxJsonDepth_def agree_wrap)
    from True b decode_rel_bind [OF this decode_rel_end] show ?thesis
      by (auto simp: decode_rel_def)
  next
    case False
    have skip: "agree (\<lambda>_ _. True) (parse_value kMaxJsonDepth first 0 lx1) (skip_value first 0 lx1)"
      using skip_value_agree [OF t, of 0 lx1] by (simp add: value_at_0)
    have kind: "\<nexists>obj. v = JObject obj" if "parse_value kMaxJsonDepth first 0 lx1 = Inr (v, lx2)" for v lx2
      using value_at_kind(3) [of 0 first lx1 v lx2] that False by (simp add: value_at_0)
    from False b decode_rel_bind [OF skip decode_rel_end] kind show ?thesis
      by (auto simp: decode_rel_def)
  qed
qed

section \<open>Properties\<close>

lemma decode_same:
  "case parse_json bytes of
     Inl e \<Rightarrow> decode_kalshi_message bytes = Inl e
   | Inr v \<Rightarrow> same_outcome (parse_kalshi_message v) (decode_kalshi_message bytes)"
proof (cases "decode bytes")
  case (Inl x)
  then show ?thesis
    using decode_parse [of bytes]
    by (cases x) (auto simp: decode_kalshi_message_def parse_json_def decode_rel_def same_outcome_def
        parse_kalshi_message_def split: sum.split JsonValue.split if_splits)
next
  case (Inr f)
  then obtain obj where "parse bytes = Inr (JObject obj)" "root_rel obj f"
    using decode_parse [of bytes] by (auto simp: decode_rel_def)
  with Inr show ?thesis by (simp add: decode_kalshi_message_def parse_json_def build_same)
qed

text \<open>
  C1. The stream decoder is equivalent to the tree path. On bytes that are not one JSON value it
  reports exactly the error of \<open>parse_json\<close>; on every JSON value it accepts if and only if
  \<open>parse_kalshi_message\<close> accepts the parsed tree, and then yields the same message.
\<close>

theorem decode_matches_tree:
  "case parse_json bytes of
     Inl e \<Rightarrow> decode_kalshi_message bytes = Inl e
   | Inr v \<Rightarrow> same_outcome (parse_kalshi_message v) (decode_kalshi_message bytes)"
  by (rule decode_same)

text \<open>C22. The decoder returns on every payload: none of its loops or nested calls exhausts its budget.\<close>

theorem decode_terminates: "\<nexists>needs_fallback. decode bytes = Inl (OutOfFuel, needs_fallback)"
  using decode_parse [of bytes] parse_no_fuel [of bytes] by (auto simp: decode_rel_def split: if_splits)

end
