(* ===== verification/Fuzz_Targets.thy ===== *)
theory Fuzz_Targets
  imports Json_Roundtrip Decoder_Equivalence Http_Response Frames
begin

text \<open>
  The fuzz targets of \<open>fuzz/\<close> and the comparison they share with the unit tests
  (\<open>tests/message_compare.hpp\<close>), as functions of the fuzzer's input: a target returns or aborts. The random masking key that
  \<open>frame_builder\<close> draws is an argument.
\<close>

section \<open>Definitions\<close>

datatype fuzz_result = Return0 | Abort

definition same_snapshot :: "OrderBookSnapshot \<Rightarrow> OrderBookSnapshot \<Rightarrow> bool" where
  "same_snapshot a b \<longleftrightarrow>
     snap_market_ticker a = snap_market_ticker b \<and> snap_market_id a = snap_market_id b \<and>
     yes_dollars_fp a = yes_dollars_fp b \<and> no_dollars_fp a = no_dollars_fp b"

definition same_delta :: "OrderBookDelta \<Rightarrow> OrderBookDelta \<Rightarrow> bool" where
  "same_delta a b \<longleftrightarrow>
     delta_market_ticker a = delta_market_ticker b \<and> delta_market_id a = delta_market_id b \<and>
     price_dollars a = price_dollars b \<and> delta_fp a = delta_fp b \<and> delta_side a = delta_side b \<and>
     delta_ts a = delta_ts b \<and> delta_ts_ms a = delta_ts_ms b"

definition same_fill :: "Fill \<Rightarrow> Fill \<Rightarrow> bool" where
  "same_fill a b \<longleftrightarrow>
     fill_order_id a = fill_order_id b \<and> fill_market_ticker a = fill_market_ticker b \<and>
     count_fp a = count_fp b \<and> fill_action a = fill_action b"

fun same_payload :: "Payload \<Rightarrow> Payload \<Rightarrow> bool" where
  "same_payload (MsgSnapshot a) (MsgSnapshot b) = same_snapshot a b"
| "same_payload (MsgDelta a) (MsgDelta b) = same_delta a b"
| "same_payload (MsgFill a) (MsgFill b) = same_fill a b"
| "same_payload MsgNone MsgNone = True"
| "same_payload _ _ = False"

definition same_message :: "Message \<Rightarrow> Message \<Rightarrow> bool" where
  "same_message a b \<longleftrightarrow>
     msg_type a = msg_type b \<and> msg_sid a = msg_sid b \<and> msg_seq a = msg_seq b \<and>
     same_payload (msg_payload a) (msg_payload b)"

definition fuzz_decoder_differential :: "string \<Rightarrow> fuzz_result" where
  "fuzz_decoder_differential input =
     (let direct = decode_kalshi_message input;
          via_tree = (case parse_json input of Inr json \<Rightarrow> parse_kalshi_message json | Inl e \<Rightarrow> Inl e) in
      if isl direct \<noteq> isl via_tree then Abort
      else case (direct, via_tree) of
        (Inr a, Inr b) \<Rightarrow> (if \<not> same_message a b then Abort else Return0)
      | _ \<Rightarrow> Return0)"

definition fuzz_frame_parser :: "bytes option \<Rightarrow> bytes \<Rightarrow> fuzz_result" where
  "fuzz_frame_parser rand input =
     (case frame_parser input of
        Inl _ \<Rightarrow> Return0
      | Inr parsed \<Rightarrow>
          if bytes_consumed parsed > length input \<or> length (payload (result_frame parsed)) > kMaxFramePayload then Abort
          else
            let frame = (result_frame parsed)\<lparr>fin_bit := True\<rparr> in
            case frame_builder rand frame of
              Inl _ \<Rightarrow> Abort
            | Inr rebuilt \<Rightarrow>
               (case frame_parser rebuilt of
                  Inl _ \<Rightarrow> Abort
                | Inr reparsed \<Rightarrow>
                    if payload (result_frame reparsed) \<noteq> payload frame \<or>
                       op_code (result_frame reparsed) \<noteq> op_code frame \<or>
                       bytes_consumed reparsed \<noteq> length rebuilt then Abort
                    else Return0))"

definition same_response :: "ParsedHttpResponse \<Rightarrow> ParsedHttpResponse \<Rightarrow> bool" where
  "same_response a b \<longleftrightarrow>
     http_consumed a = http_consumed b \<and> status (response a) = status (response b) \<and>
     keep_alive (response a) = keep_alive (response b) \<and> http_body (response a) = http_body (response b)"

definition over_reads :: "string \<Rightarrow> bool \<Rightarrow> bool" where
  "over_reads input eof =
     (case parse_http_response input eof of
        Inr (Some full) \<Rightarrow> http_consumed full > length input
      | _ \<Rightarrow> False)"

definition cut_differs :: "string \<Rightarrow> nat \<Rightarrow> bool" where
  "cut_differs input n =
     (case parse_http_response (take n input) False of
        Inr (Some prefix) \<Rightarrow>
          (case parse_http_response input False of
             Inr (Some full) \<Rightarrow> \<not> same_response prefix full
           | _ \<Rightarrow> True)
      | _ \<Rightarrow> False)"

definition fuzz_http_response :: "string \<Rightarrow> fuzz_result" where
  "fuzz_http_response input =
     (let size = length input in
      if list_ex (over_reads input) [False, True] then Abort
      else if list_ex (cut_differs input) [size div 4, size div 2, size - size div 4] then Abort
      else Return0)"

definition fuzz_json :: "string \<Rightarrow> fuzz_result" where
  "fuzz_json input =
     (case parse_json input of
        Inl _ \<Rightarrow> Return0
      | Inr first \<Rightarrow>
          let dumped = to_json_string first in
          case parse_json dumped of
            Inl _ \<Rightarrow> Abort
          | Inr second \<Rightarrow> if to_json_string second \<noteq> dumped then Abort else Return0)"

section \<open>No target aborts\<close>

lemma same_message_iff [simp]: "same_message a b \<longleftrightarrow> a = b"
proof -
  have "same_payload p q \<longleftrightarrow> p = q" for p q
    by (cases "(p, q)" rule: same_payload.cases) (auto simp: same_snapshot_def same_delta_def same_fill_def)
  then show ?thesis by (auto simp: same_message_def)
qed

lemma fuzz_decoder_differential_ok: "fuzz_decoder_differential input = Return0"
  using decode_same [of input]
  by (auto simp: fuzz_decoder_differential_def same_outcome_def Let_def split: sum.splits)

lemma fuzz_frame_parser_ok:
  assumes "length key = 4"
  shows "fuzz_frame_parser (Some key) input = Return0"
proof (cases "frame_parser input")
  case (Inl e)
  then show ?thesis by (simp add: fuzz_frame_parser_def)
next
  case (Inr parsed)
  let ?f = "(result_frame parsed)\<lparr>fin_bit := True\<rparr>"
  note ok = accepted_frame [OF Inr]
  have "op_code (result_frame parsed) \<in> {Close, Ping, Pong} \<or> opcode_val (op_code (result_frame parsed)) < 8"
    by (cases "op_code (result_frame parsed)") auto
  with ok have "sendable ?f" by (auto simp: sendable_def)
  moreover obtain rebuilt where "frame_builder (Some key) ?f = Inr rebuilt" by (simp add: frame_builder_def)
  ultimately show ?thesis
    using built_frame_parses [OF assms, of ?f rebuilt] ok by (auto simp: fuzz_frame_parser_def Inr Let_def)
qed

lemma fuzz_http_response_ok: "fuzz_http_response input = Return0"
proof -
  have reads: "\<not> over_reads input eof" for eof
    by (auto simp: over_reads_def dest: parse_http_bound split: sum.split option.split)
  have "\<not> cut_differs input n" for n
    using parse_http_append [of "take n input" _ "drop n input" False]
    by (auto simp: cut_differs_def same_response_def split: sum.split option.split)
  with reads show ?thesis by (simp add: fuzz_http_response_def Let_def)
qed

lemma fuzz_json_ok: "fuzz_json input = Return0"
  by (auto simp: fuzz_json_def Let_def parse_json_printed dest: parse_json_fits split: sum.split)

end
