(* ===== verification/Spec2Isabelle.thy ===== *)
theory Spec2Isabelle
  imports Book_Feed Entry_Point Fuzz_Targets
begin

text \<open>
  A verification library for the Kalshi client: a single-threaded trading bot that follows the order
  book of one market over a WebSocket and sends orders over a persistent HTTPS connection.

  \<^bold>\<open>The parts of the program.\<close> Bytes come from TLS sockets. The WebSocket client cuts them into frames,
  the decoder turns a text frame into a typed message, the bot checks its sequence number and applies
  it to the order book, the strategy looks at the new top of the book and may give a signal, and the bot
  serializes an order, signs it and posts it through the HTTP client. Responses and fill messages
  update the positions and the fills that are not confirmed yet, whose sum is the exposure the strategy is limited by. A
  session that fails is followed by another one, with a growing pause.

  \<^bold>\<open>Conventions.\<close> \<open>std::expected<T, E>\<close> is \<open>E + T\<close>, \<open>std::optional\<close> is \<open>option\<close>, a struct is a record, an
  enum or a variant is a datatype. Text and the bytes of a socket are \<open>string\<close>; frames work on
  \<open>8 word list\<close>. Signed 64-bit arithmetic is arithmetic on \<open>int\<close> with the checks of the source, and an addition
  that may overflow is \<open>add64\<close> (\<open>sub64\<close>, \<open>mul64\<close>), which has no value then, as C++ gives none. Double
  arithmetic is a record of operations (\<open>double_ops\<close>) passed as an argument: the limits hold for any rounding, the average is
  studied in the exact instance \<open>real_ops\<close>. The operating system, OpenSSL, the clocks and the signal handler are the
  \<^emph>\<open>world\<close>: a tape of answers and the trace of the calls made. The theorems hold for every tape.

  \<^bold>\<open>The theories.\<close>

  \<^item> \<open>Prelude\<close>: characters, decimal notation, \<open>std::from_chars\<close>, integer ranges.
  \<^item> \<open>Fixed_Point\<close> (\<open>include/fixed_point.hpp\<close>): \<open>parse_fixed\<close>; it returns a value exactly for
    a decimal literal that is an integral number of units within \<open>int64_t\<close>, and then that number.
  \<^item> \<open>Messages\<close> (\<open>include/kalshi_messages.hpp\<close>): the typed messages.
  \<^item> \<open>Market_State\<close> (\<open>src/trading/market_state.cpp\<close>): the book as an array of levels per side with a cached
    best price; the invariant \<open>book_inv\<close> of every reachable book, the effect and the rejections of
    snapshots and deltas.
  \<^item> \<open>Json_Lexer\<close>, \<open>Json_Parser\<close> (\<open>src/encoding\<close>): the tokenizer and the recursive descent parser. The loops take
    fuel from the number of bytes left, nesting from the depth limit of the source; \<open>parse_terminates\<close> shows that the fuel is never used up.
  \<^item> \<open>Kalshi_Messages\<close> (\<open>src/protocol/kalshi_messages.cpp\<close>): decoding a tree, printing a tree, order requests
    and responses. \<open>Json_Roundtrip\<close>: printing and parsing are inverse.
  \<^item> \<open>Kalshi_Decoder\<close> (\<open>src/protocol/kalshi_decoder.cpp\<close>): the decoder that builds no tree.
    \<open>Decoder_Equivalence\<close>: it accepts the same payloads as the tree path, with the same messages, by a simulation (\<open>agree\<close>)
    between the two readers of the token stream.
  \<^item> \<open>Byte_Stream\<close>: reading loops over a stream that arrives in pieces. The locales \<open>stream_parser\<close> and
    \<open>strict_stream_parser\<close> state what such a loop needs of a parser: its decisions do not change when more bytes arrive. They are interpreted by
    the frame parser and by the response parser.
  \<^item> \<open>Frames\<close> (\<open>src/protocol/frame_parser.cpp\<close>, \<open>frame_builder.cpp\<close>) and \<open>Http_Response\<close>
    (\<open>src/protocol/http_response.cpp\<close>): the two parsers, their limits and round trips.
  \<^item> \<open>World\<close>: the environment, weakest preconditions (\<open>io_wp\<close>), and the measure by which loops that call it end (\<open>shrinks\<close>): a
    program takes its answers from the front of the tape and adds them, with the calls, to the trace (\<open>consumes\<close>).
  \<^item> \<open>Sockets\<close> (\<open>src/network/tcp_socket.cpp\<close>, \<open>tls_socket.cpp\<close>, \<open>include/openssl_util.hpp\<close>): connections made
    of system calls; which descriptors and objects a trace leaves open (\<open>held\<close>).
  \<^item> \<open>Kalshi_Auth\<close> and \<open>Key_Signer\<close> (\<open>src/protocol/kalshi_auth.cpp\<close>): credentials, the signed headers, the steps of a signature.
  \<^item> \<open>Http_Client\<close> (\<open>src/protocol/http_client.cpp\<close>): connection reuse, the retry policy and reading a response.
  \<^item> \<open>Web_Socket\<close> (\<open>src/network/web_socket.cpp\<close>): the handshake, receiving and sending frames.
  \<^item> \<open>Trackers\<close> (\<open>include/order_tracker.hpp\<close>, \<open>position_tracker.hpp\<close>, \<open>latency_stats.hpp\<close>).
  \<^item> \<open>Doubles\<close> and \<open>Strategy\<close> (\<open>src/trading/strategy.cpp\<close>): the average, the guards, the signals.
  \<^item> \<open>Trading_Bot\<close> (\<open>src/trading/trading_bot.cpp\<close>): the handlers and the two loops, and the locale \<open>bot_relation\<close>: a preorder kept by
    each operation is kept by every handler, session and run. \<open>Bot_Ledger\<close> and \<open>Bot_Safety\<close> interpret it. \<open>Bot_Ledger\<close>: every run refines a step
    system of orders and fills (\<open>bot_step\<close>), in which the exposure stays within the limit. \<open>Bot_Safety\<close>: the book, the sequence numbers, the errors,
    the pauses and the orders of a run.
  \<^item> \<open>Book_Feed\<close>: the book of a session against a specification, a \<open>replica\<close> of the exchange's book that takes messages only in sequence. A
    session refines it, and a feed that was cut, repeated or reordered is never applied unnoticed.
  \<^item> \<open>Entry_Point\<close> (\<open>main.cpp\<close>): the signal handlers, the program's arguments, the transfer command and the start of the
    bot, which needs the private key before it touches the network.
  \<^item> \<open>Fuzz_Targets\<close> (\<open>fuzz\<close>, \<open>tests/message_compare.hpp\<close>): the fuzz targets as functions of their input.

  \<^bold>\<open>Termination.\<close> Loops over data are structural or have a measure. Loops over the world consume its tape, so they end on every
  tape; a run whose tape is too short is not described further (\<open>None\<close>), as is one that overflows. That the loops return a result is stated where
  the tape has it: \<open>receive_frames_all\<close> returns every frame that the stream holds.

  \<^bold>\<open>Not modelled.\<close> What is printed; when a signal arrives (the handlers are installed in \<open>Entry_Point\<close>, and a request to stop may come at
  every point where the source reads the flag); the insides of OpenSSL, the kernel and the resolver; the release of temporary OpenSSL objects in
  \<open>kalshi_auth.cpp\<close>; the benchmarks, which only measure the time of operations modelled here; the unit tests, which are single
  examples of them; the fuzzing engine.
\<close>

section \<open>The fuzz targets\<close>

text \<open>
  C14. No fuzz target aborts, whatever its input: what the JSON parser accepts survives printing and
  parsing, the direct decoder agrees with the tree path, an HTTP response that is complete in a prefix is
  the response of the whole input and never longer than it, and an accepted frame can be rebuilt
  and parsed again with the same payload and opcode, for every masking key of four bytes.
\<close>

theorem fuzz_targets_never_abort:
  assumes "length key = 4"
  shows "fuzz_json data = Return0 \<and> fuzz_decoder_differential data = Return0 \<and>
    fuzz_http_response data = Return0 \<and> fuzz_frame_parser (Some key) (bytes_of data) = Return0"
  using fuzz_json_ok fuzz_decoder_differential_ok fuzz_http_response_ok fuzz_frame_parser_ok [OF assms] by simp

theorem fuzz_targets_never_abort_witness:
  "length [1, 2, 3, 4 :: 8 word] = 4 \<and> fuzz_frame_parser (Some [1, 2, 3, 4]) (bytes_of ''ab'') = Return0 \<and>
     fuzz_json ''[]'' = Return0"
  using fuzz_targets_never_abort [of "[1, 2, 3, 4]" "''ab''"] fuzz_targets_never_abort [of "[1, 2, 3, 4]" "''[]''"] by simp

end
